theory Spec2Isabelle
  imports Main "HOL-Library.Sublist"
begin

section \<open>Worker deletion: the generic actuator\<close>

text \<open>
  The embedding follows \<^verbatim>\<open>pkg/controller/worker/genericactuator/actuator_delete.go\<close>.
  A Go \<^verbatim>\<open>error\<close> is a value of the datatype \<open>error\<close>; a function returning
  \<^verbatim>\<open>error\<close> returns \<open>error option\<close> (\<open>None\<close> is \<^verbatim>\<open>nil\<close>). Objects that the
  source mutates through a pointer are returned updated, the remote store behind
  \<^verbatim>\<open>a.client\<close> is an explicit value that is passed along.
\<close>

subsection \<open>Errors\<close>

datatype error =
    ClientError string
    \<comment> \<open>an error handed back by the store (List, Get, Update) or by a collaborator\<close>
  | LabellingFailed "error list"
    \<comment> \<open>\<^verbatim>\<open>fmt.Errorf("labelling machines (to become forcefully deleted) failed: %v", errorList)\<close>\<close>
  | MachineFailed string string
    \<comment> \<open>\<^verbatim>\<open>fmt.Errorf("Machine %s failed: %s", failedMachine.Name, failedMachine.LastOperation.Description)\<close>\<close>
  | ErrWaitTimeout
    \<comment> \<open>\<^verbatim>\<open>wait.ErrWaitTimeout\<close>, what \<^verbatim>\<open>wait.PollUntil\<close> returns when its stop channel closes\<close>
  | Wrapped error string
    \<comment> \<open>\<^verbatim>\<open>errors.Wrapf(err, msg)\<close>\<close>
  | DetermineError string
    \<comment> \<open>\<^verbatim>\<open>gardencorev1alpha1helper.DetermineError(msg)\<close>: an error carrying the message\<close>

text \<open>The text of \<^verbatim>\<open>err.Error()\<close>; \<^verbatim>\<open>%v\<close> of a slice of errors prints them in brackets,
  separated by blanks.\<close>

fun joinWith :: "string \<Rightarrow> string list \<Rightarrow> string" where
  "joinWith sep [] = []"
| "joinWith sep [x] = x"
| "joinWith sep (x # y # ys) = x @ sep @ joinWith sep (y # ys)"

fun errorString :: "error \<Rightarrow> string" where
  "errorString (ClientError s) = s"
| "errorString (LabellingFailed es) =
     ''labelling machines (to become forcefully deleted) failed: ['' @
       joinWith '' '' (map errorString es) @ '']''"
| "errorString (MachineFailed n d) = ''Machine '' @ n @ '' failed: '' @ d"
| "errorString ErrWaitTimeout = ''timed out waiting for the condition''"
| "errorString (Wrapped e m) = m @ '': '' @ errorString e"
| "errorString (DetermineError m) = m"

subsection \<open>Machines and the store\<close>

definition forceDeletionLabelKey :: string where
  "forceDeletionLabelKey = ''force-deletion''"

definition forceDeletionLabelValue :: string where
  "forceDeletionLabelValue = ''True''"

text \<open>A Machine as far as the actuator reads it: its name and its labels. The labels are
  a Go map, which may be \<^verbatim>\<open>nil\<close> (\<open>None\<close>).\<close>

record Machine =
  machineName :: string
  machineLabels :: "(string \<rightharpoonup> string) option"

text \<open>
  The store behind \<^verbatim>\<open>a.client\<close>, as far as the marking step uses it: the Machines of the
  worker's namespace, the outcome of listing them, which updates the store rejects, and
  the record of the update calls it has received.
\<close>

record client =
  storedMachines :: "Machine list"
  listMachinesError :: "error option"
  updateError :: "Machine \<Rightarrow> error option"
  updateCalls :: "Machine list"

definition ListMachines :: "client \<Rightarrow> error + Machine list" where
  "ListMachines c =
     (case listMachinesError c of Some e \<Rightarrow> Inl e | None \<Rightarrow> Inr (storedMachines c))"

text \<open>\<^verbatim>\<open>a.client.Update(ctx, machine)\<close>: the call is recorded; when the store accepts it,
  the stored object of that name is replaced.\<close>

definition Update :: "client \<Rightarrow> Machine \<Rightarrow> error option \<times> client" where
  "Update c m =
     (case updateError c m of
        Some e \<Rightarrow> (Some e, c\<lparr>updateCalls := updateCalls c @ [m]\<rparr>)
      | None \<Rightarrow>
          (None, c\<lparr>storedMachines :=
                      map (\<lambda>x. if machineName x = machineName m then m else x) (storedMachines c),
                    updateCalls := updateCalls c @ [m]\<rparr>))"

subsection \<open>markMachineForcefulDeletion\<close>

text \<open>The result is the returned error, the machine object as the call leaves it, and
  the store.\<close>

definition markMachineForcefulDeletion ::
  "client \<Rightarrow> Machine \<Rightarrow> error option \<times> Machine \<times> client" where
  "markMachineForcefulDeletion c machine =
     (let labels = (case machineLabels machine of None \<Rightarrow> Map.empty | Some ls \<Rightarrow> ls);
          machine1 = machine\<lparr>machineLabels := Some labels\<rparr>
      in if labels forceDeletionLabelKey = Some forceDeletionLabelValue
         then (None, machine1, c)
         else
           (let machine2 =
                  machine1\<lparr>machineLabels :=
                    Some (labels(forceDeletionLabelKey \<mapsto> forceDeletionLabelValue))\<rparr>
            in case Update c machine2 of (err, c') \<Rightarrow> (err, machine2, c')))"

definition hasForceDeletionLabel :: "Machine \<Rightarrow> bool" where
  "hasForceDeletionLabel m =
     (case machineLabels m of
        None \<Rightarrow> False
      | Some ls \<Rightarrow> ls forceDeletionLabelKey = Some forceDeletionLabelValue)"

subsection \<open>markAllMachinesForcefulDeletion: the fan-out\<close>

text \<open>
  The source starts one goroutine per listed machine and waits for all of them:
  \<^verbatim>\<open>
  go func(m machinev1alpha1.Machine) {
      defer wg.Done()
      if err := a.markMachineForcefulDeletion(ctx, &m); err != nil {
          errorList = append(errorList, err)
      }
  }(machine)
  \<close>
  \<^verbatim>\<open>errorList\<close> is shared by the goroutines and no lock guards it, so the statement
  \<^verbatim>\<open>errorList = append(errorList, err)\<close> is a read of the variable followed by a write.
  A goroutine is therefore a task with three atomic steps: the call of
  \<^verbatim>\<open>markMachineForcefulDeletion\<close> on its own copy of the machine, the read of
  \<^verbatim>\<open>errorList\<close>, and the write of the extended slice. The runtime's choice of the next
  goroutine to advance is a schedule: a list of task indices.

  The read and the write of \<^verbatim>\<open>errorList\<close> are each taken as one step. A Go slice is a
  header of three words, and the language gives concurrent unsynchronised accesses to it
  no such guarantee: a goroutine may read a header that two writes have torn, and the
  program may then panic or touch memory it does not own. Such runs are not runs of this
  model. What is proved below of every schedule is proved of the interleavings of these
  three steps; the lost update that an interleaving of them shows is a run of the
  program.
\<close>

datatype task =
    Spawned Machine
    \<comment> \<open>the goroutine holds its copy \<^verbatim>\<open>m\<close> and has not run yet\<close>
  | Failing error
    \<comment> \<open>\<^verbatim>\<open>markMachineForcefulDeletion\<close> returned this error; \<^verbatim>\<open>errorList\<close> is read next\<close>
  | Appending "error list" error
    \<comment> \<open>\<^verbatim>\<open>errorList\<close> was read with this value; the write of \<^verbatim>\<open>append\<close>'s result is next\<close>
  | Finished
    \<comment> \<open>\<^verbatim>\<open>wg.Done()\<close> has run\<close>

record fanout =
  fanClient :: client
  errorList :: "error list"
  tasks :: "task list"

definition stepTask :: "nat \<Rightarrow> fanout \<Rightarrow> fanout" where
  "stepTask i st =
     (if i < length (tasks st) then
        (case tasks st ! i of
           Spawned m \<Rightarrow>
             (case markMachineForcefulDeletion (fanClient st) m of
                (err, m', c') \<Rightarrow>
                  st\<lparr>fanClient := c',
                     tasks := (tasks st)[i := (case err of None \<Rightarrow> Finished | Some e \<Rightarrow> Failing e)]\<rparr>)
         | Failing e \<Rightarrow> st\<lparr>tasks := (tasks st)[i := Appending (errorList st) e]\<rparr>
         | Appending seen e \<Rightarrow> st\<lparr>errorList := seen @ [e], tasks := (tasks st)[i := Finished]\<rparr>
         | Finished \<Rightarrow> st)
      else st)"

definition runSchedule :: "nat list \<Rightarrow> fanout \<Rightarrow> fanout" where
  "runSchedule sched st = fold stepTask sched st"

text \<open>\<^verbatim>\<open>wg.Wait()\<close> returns once every goroutine has finished. Whatever the schedule did,
  the remaining steps of every task are run (a step of a finished task changes nothing),
  so every schedule is completed to one in which all tasks finish.\<close>

definition drain :: "nat \<Rightarrow> nat list" where
  "drain n = concat (map (\<lambda>i. [i, i, i]) [0..<n])"

definition markAllMachinesForcefulDeletion :: "nat list \<Rightarrow> client \<Rightarrow> error option \<times> client" where
  "markAllMachinesForcefulDeletion sched c =
     (case ListMachines c of
        Inl err \<Rightarrow> (Some err, c)
      | Inr items \<Rightarrow>
          (let st = runSchedule (sched @ drain (length items))
                      \<lparr>fanClient = c, errorList = [], tasks = map Spawned items\<rparr>
           in if length (errorList st) > 0
              then (Some (LabellingFailed (errorList st)), fanClient st)
              else (None, fanClient st)))"

subsection \<open>waitUntilMachineResourcesDeleted\<close>

datatype resource =
  Machines | MachineSets | MachineDeployments | MachineClasses | MachineClassSecrets

record MachineSet =
  machineSetName :: string

record MachineSummary =
  summaryName :: string
  lastOperationDescription :: string

record MachineDeployment =
  machineDeploymentName :: string
  failedMachines :: "MachineSummary list"
  \<comment> \<open>\<^verbatim>\<open>Status.FailedMachines\<close>\<close>

record MachineClass =
  machineClassName :: string

record Secret =
  secretName :: string
  secretFinalizers :: "string list"

text \<open>
  What the store answers to the list calls of one tick. For the machine classes the
  answer is that of \<^verbatim>\<open>a.client.List\<close> into the delegate's list object followed by
  \<^verbatim>\<open>meta.ExtractList\<close>: \<open>Inl\<close> when either fails. The secrets are those
  \<^verbatim>\<open>a.listMachineClassSecrets\<close> returns.
\<close>

record snapshot =
  listedMachines :: "error + Machine list"
  listedMachineSets :: "error + MachineSet list"
  listedMachineDeployments :: "error + MachineDeployment list"
  listedMachineClasses :: "error + MachineClass list"
  listedMachineClassSecrets :: "error + Secret list"

text \<open>The five counters of the closure, the message of the current tick, and what the
  tick did: the list calls it issued and the line it logged.\<close>

record waitState =
  countMachines :: int
  countMachineSets :: int
  countMachineDeployments :: int
  countMachineClasses :: int
  countMachineClassSecrets :: int
  msg :: string
  queried :: "resource list"
  logged :: "string option"

text \<open>\<^verbatim>\<open>%d\<close> of \<^verbatim>\<open>fmt.Sprintf\<close>.\<close>

fun decimal :: "nat \<Rightarrow> string" where
  "decimal n =
     (if n < 10 then [''0123456789'' ! n]
      else decimal (n div 10) @ [''0123456789'' ! (n mod 10)])"

declare decimal.simps [simp del]

definition Sprintf_d :: "int \<Rightarrow> string" where
  "Sprintf_d i = (if i < 0 then ''-'' @ decimal (nat (- i)) else decimal (nat i))"

text \<open>\<^verbatim>\<open>strings.TrimSuffix\<close>.\<close>

definition TrimSuffix :: "string \<Rightarrow> string \<Rightarrow> string" where
  "TrimSuffix s suf =
     (if length suf \<le> length s \<and> drop (length s - length suf) s = suf
      then take (length s - length suf) s else s)"

text \<open>Go's early \<^verbatim>\<open>return false, err\<close>: the rest of the tick is skipped.\<close>

definition andThen ::
  "error option \<times> 's \<Rightarrow> ('s \<Rightarrow> error option \<times> 's) \<Rightarrow> error option \<times> 's" where
  "andThen r f = (case r of (Some err, s) \<Rightarrow> (Some err, s) | (None, s) \<Rightarrow> f s)"

definition checkMachines :: "snapshot \<Rightarrow> waitState \<Rightarrow> error option \<times> waitState" where
  "checkMachines env s =
     (if countMachines s \<noteq> 0 then
        (case listedMachines env of
           Inl err \<Rightarrow> (Some err, s\<lparr>queried := queried s @ [Machines]\<rparr>)
         | Inr items \<Rightarrow>
             (None, s\<lparr>countMachines := int (length items),
                      msg := msg s @ Sprintf_d (int (length items)) @ '' machines, '',
                      queried := queried s @ [Machines]\<rparr>))
      else (None, s))"

definition checkMachineSets :: "snapshot \<Rightarrow> waitState \<Rightarrow> error option \<times> waitState" where
  "checkMachineSets env s =
     (if countMachineSets s \<noteq> 0 then
        (case listedMachineSets env of
           Inl err \<Rightarrow> (Some err, s\<lparr>queried := queried s @ [MachineSets]\<rparr>)
         | Inr items \<Rightarrow>
             (None, s\<lparr>countMachineSets := int (length items),
                      msg := msg s @ Sprintf_d (int (length items)) @ '' machine sets, '',
                      queried := queried s @ [MachineSets]\<rparr>))
      else (None, s))"

text \<open>The two nested loops over the deployments and their failed machines return at the
  first failed machine they meet.\<close>

fun firstFailedMachine :: "MachineDeployment list \<Rightarrow> MachineSummary option" where
  "firstFailedMachine [] = None"
| "firstFailedMachine (d # ds) =
     (case failedMachines d of
        failedMachine # _ \<Rightarrow> Some failedMachine
      | [] \<Rightarrow> firstFailedMachine ds)"

definition checkMachineDeployments :: "snapshot \<Rightarrow> waitState \<Rightarrow> error option \<times> waitState" where
  "checkMachineDeployments env s =
     (if countMachineDeployments s \<noteq> 0 then
        (case listedMachineDeployments env of
           Inl err \<Rightarrow> (Some err, s\<lparr>queried := queried s @ [MachineDeployments]\<rparr>)
         | Inr items \<Rightarrow>
             (let s' = s\<lparr>countMachineDeployments := int (length items),
                         msg := msg s @ Sprintf_d (int (length items)) @ '' machine deployments, '',
                         queried := queried s @ [MachineDeployments]\<rparr>
              in case firstFailedMachine items of
                   Some failedMachine \<Rightarrow>
                     (Some (MachineFailed (summaryName failedMachine)
                              (lastOperationDescription failedMachine)), s')
                 | None \<Rightarrow> (None, s')))
      else (None, s))"

definition checkMachineClasses :: "snapshot \<Rightarrow> waitState \<Rightarrow> error option \<times> waitState" where
  "checkMachineClasses env s =
     (if countMachineClasses s \<noteq> 0 then
        (case listedMachineClasses env of
           Inl err \<Rightarrow> (Some err, s\<lparr>queried := queried s @ [MachineClasses]\<rparr>)
         | Inr machineClasses \<Rightarrow>
             (None, s\<lparr>countMachineClasses := int (length machineClasses),
                      msg := msg s @ Sprintf_d (int (length machineClasses)) @ '' machine classes, '',
                      queried := queried s @ [MachineClasses]\<rparr>))
      else (None, s))"

definition checkMachineClassSecrets :: "snapshot \<Rightarrow> waitState \<Rightarrow> error option \<times> waitState" where
  "checkMachineClassSecrets env s =
     (if countMachineClassSecrets s \<noteq> 0 then
        (case listedMachineClassSecrets env of
           Inl err \<Rightarrow> (Some err, s\<lparr>queried := queried s @ [MachineClassSecrets]\<rparr>)
         | Inr items \<Rightarrow>
             (let count = int (length (filter (\<lambda>x. length (secretFinalizers x) \<noteq> 0) items))
              in (None, s\<lparr>countMachineClassSecrets := count,
                          msg := msg s @ Sprintf_d count @ '' machine class secrets, '',
                          queried := queried s @ [MachineClassSecrets]\<rparr>)))
      else (None, s))"

definition allZero :: "waitState \<Rightarrow> bool" where
  "allZero s \<longleftrightarrow>
     \<not> (countMachines s \<noteq> 0 \<or> countMachineSets s \<noteq> 0 \<or> countMachineDeployments s \<noteq> 0 \<or>
        countMachineClasses s \<noteq> 0 \<or> countMachineClassSecrets s \<noteq> 0)"

text \<open>The five checks of one tick, in the order of the source.\<close>

definition checks :: "snapshot \<Rightarrow> waitState \<Rightarrow> error option \<times> waitState" where
  "checks env s =
     andThen (andThen (andThen (andThen (checkMachines env s)
       (checkMachineSets env)) (checkMachineDeployments env))
       (checkMachineClasses env)) (checkMachineClassSecrets env)"

text \<open>The condition function handed to \<^verbatim>\<open>wait.PollUntil\<close>: one tick. It returns Go's
  \<^verbatim>\<open>(bool, error)\<close> and the state it leaves.\<close>

definition condition :: "snapshot \<Rightarrow> waitState \<Rightarrow> (bool \<times> error option) \<times> waitState" where
  "condition env s0 =
     (case checks env (s0\<lparr>msg := [], queried := [], logged := None\<rparr>) of
        (Some err, s') \<Rightarrow> ((False, Some err), s')
      | (None, s') \<Rightarrow>
          (if \<not> allZero s'
           then ((False, None),
                 s'\<lparr>logged := Some (''Waiting until the following machine resources have been processed: ''
                                     @ TrimSuffix (msg s') '', '')\<rparr>)
           else ((True, None), s')))"

text \<open>
  \<^verbatim>\<open>wait.PollUntil(interval, condition, stopCh)\<close> of \<^verbatim>\<open>k8s.io/apimachinery\<close>: it calls
  the condition at every tick until the condition returns an error (which it returns),
  returns true (it returns \<^verbatim>\<open>nil\<close>), or the stop channel closes (it returns
  \<^verbatim>\<open>ErrWaitTimeout\<close>). The argument list holds what the condition meets at each of its
  calls before the stop channel closes; the list is finite because the context handed to
  the wait carries a deadline. Beside the error, the result lists what each call of the
  condition returned and the state it left.
\<close>

fun PollUntil ::
  "('e \<Rightarrow> 's \<Rightarrow> (bool \<times> error option) \<times> 's) \<Rightarrow> 'e list \<Rightarrow> 's \<Rightarrow>
     error option \<times> ((bool \<times> error option) \<times> 's) list" where
  "PollUntil cond [] s = (Some ErrWaitTimeout, [])"
| "PollUntil cond (e # es) s =
     (let r = cond e s
      in if snd (fst r) \<noteq> None then (snd (fst r), [r])
         else if fst (fst r) then (None, [r])
         else (case PollUntil cond es (snd r) of (res, tr) \<Rightarrow> (res, r # tr)))"

definition initialWaitState :: waitState where
  "initialWaitState =
     \<lparr>countMachines = - 1, countMachineSets = - 1, countMachineDeployments = - 1,
      countMachineClasses = - 1, countMachineClassSecrets = - 1,
      msg = [], queried = [], logged = None\<rparr>"

definition waitUntilMachineResourcesDeleted ::
  "snapshot list \<Rightarrow> error option \<times> ((bool \<times> error option) \<times> waitState) list" where
  "waitUntilMachineResourcesDeleted ticks = PollUntil condition ticks initialWaitState"

text \<open>The counter of a resource type.\<close>

fun countOf :: "resource \<Rightarrow> waitState \<Rightarrow> int" where
  "countOf Machines s = countMachines s"
| "countOf MachineSets s = countMachineSets s"
| "countOf MachineDeployments s = countMachineDeployments s"
| "countOf MachineClasses s = countMachineClasses s"
| "countOf MachineClassSecrets s = countMachineClassSecrets s"

text \<open>Whether the list call for a resource type fails in a snapshot, and with what.\<close>

fun listError :: "resource \<Rightarrow> snapshot \<Rightarrow> error option" where
  "listError Machines env = (case listedMachines env of Inl e \<Rightarrow> Some e | Inr _ \<Rightarrow> None)"
| "listError MachineSets env = (case listedMachineSets env of Inl e \<Rightarrow> Some e | Inr _ \<Rightarrow> None)"
| "listError MachineDeployments env =
     (case listedMachineDeployments env of Inl e \<Rightarrow> Some e | Inr _ \<Rightarrow> None)"
| "listError MachineClasses env = (case listedMachineClasses env of Inl e \<Rightarrow> Some e | Inr _ \<Rightarrow> None)"
| "listError MachineClassSecrets env =
     (case listedMachineClassSecrets env of Inl e \<Rightarrow> Some e | Inr _ \<Rightarrow> None)"

subsection \<open>Delete\<close>

text \<open>
  \<^verbatim>\<open>Delete\<close> is a sequence of stages, and the first stage that fails ends it. The stages
  whose code lies outside this file (the delegate factory, the scaling of the
  controller's deployment, the chart operations, the three cleanup functions, the shoot
  clients) are collaborators: only their outcome is known here. The record also holds what
  the run meets from outside: the schedule of the goroutines and what the store answers
  at each tick of the wait.
\<close>

datatype stage =
    InstantiateDelegate | GetDeployment | ScaleDeployment | ApplyShootChart
  | MarkAllMachines
  | ListMachineDeployments | CleanupMachineDeployments | CleanupMachineClasses
  | CleanupMachineClassSecrets
  | WaitUntilDeleted
  | NewClientsForShoot | DeleteShootChart | DeleteSeedChart

record collaborators =
  workerDelegateError :: "error option"
  getDeploymentError :: "error option"
  scaleDeploymentError :: "error option"
  applyShootChartError :: "error option"
  goroutineSchedule :: "nat list"
  listMachineDeploymentsError :: "error option"
  cleanupMachineDeploymentsError :: "error option"
  cleanupMachineClassesError :: "error option"
  cleanupMachineClassSecretsError :: "error option"
  polled :: "snapshot list"
  newClientsForShootError :: "error option"
  deleteShootChartError :: "error option"
  deleteSeedChartError :: "error option"

definition Wrapf :: "error option \<Rightarrow> string \<Rightarrow> error option" where
  "Wrapf err m = (case err of None \<Rightarrow> None | Some e \<Rightarrow> Some (Wrapped e m))"

text \<open>The stages in order; the result is the error returned, the stages that were
  entered, and the store.\<close>

fun runStages ::
  "(stage \<times> (client \<Rightarrow> error option \<times> client)) list \<Rightarrow> client \<Rightarrow> error option \<times> stage list \<times> client" where
  "runStages [] c = (None, [], c)"
| "runStages ((name, f) # rest) c =
     (case f c of
        (Some err, c') \<Rightarrow> (Some err, [name], c')
      | (None, c') \<Rightarrow> (case runStages rest c' of (r, names, c'') \<Rightarrow> (r, name # names, c'')))"

text \<open>The message of the error that \<^verbatim>\<open>Delete\<close> returns when the wait fails.\<close>

definition waitFailureMessage :: "error \<Rightarrow> string" where
  "waitFailureMessage err =
     ''Failed while waiting for all machine resources to be deleted: '' @
     [CHR 0x27] @ errorString err @ [CHR 0x27]"

definition Delete :: "collaborators \<Rightarrow> client \<Rightarrow> error option \<times> stage list \<times> client" where
  "Delete env c0 =
     runStages
       [(InstantiateDelegate,
           \<lambda>c. (Wrapf (workerDelegateError env) ''could not instantiate actuator context'', c)),
        (GetDeployment, \<lambda>c. (getDeploymentError env, c)),
        (ScaleDeployment, \<lambda>c. (scaleDeploymentError env, c)),
        (ApplyShootChart,
           \<lambda>c. (Wrapf (applyShootChartError env)
                   ''could not apply machine-controller-manager shoot chart'', c)),
        (MarkAllMachines,
           \<lambda>c. (case markAllMachinesForcefulDeletion (goroutineSchedule env) c of
                   (err, c') \<Rightarrow>
                     (Wrapf err ''marking all machines for forceful deletion failed'', c'))),
        (ListMachineDeployments, \<lambda>c. (listMachineDeploymentsError env, c)),
        (CleanupMachineDeployments,
           \<lambda>c. (Wrapf (cleanupMachineDeploymentsError env)
                   ''cleaning up machine deployments failed'', c)),
        (CleanupMachineClasses,
           \<lambda>c. (Wrapf (cleanupMachineClassesError env) ''cleaning up machine classes failed'', c)),
        (CleanupMachineClassSecrets,
           \<lambda>c. (Wrapf (cleanupMachineClassSecretsError env)
                   ''cleaning up machine class secrets failed'', c)),
        (WaitUntilDeleted,
           \<lambda>c. (case fst (waitUntilMachineResourcesDeleted (polled env)) of
                   Some err \<Rightarrow> Some (DetermineError (waitFailureMessage err))
                 | None \<Rightarrow> None, c)),
        (NewClientsForShoot,
           \<lambda>c. (Wrapf (newClientsForShootError env)
                   ''could not create shoot client for cleanup of machine-controller-manager resources'',
                 c)),
        (DeleteShootChart,
           \<lambda>c. (Wrapf (deleteShootChartError env)
                   ''cleaning up machine-controller-manager resources in shoot failed'', c)),
        (DeleteSeedChart,
           \<lambda>c. (Wrapf (deleteSeedChartError env)
                   ''cleaning up machine-controller-manager resources in seed failed'', c))]
       c0"

section \<open>The control plane webhook: the generic mutator\<close>

text \<open>The embedding follows the generic mutator of the control plane webhook
  (package \<^verbatim>\<open>genericmutator\<close>).\<close>

subsection \<open>Objects\<close>

text \<open>Of the workload kinds the dispatcher reads the name and the namespace; the rest of
  the object is carried along as it is.\<close>

record Service =
  serviceName :: string
  serviceNamespace :: string
  serviceRest :: string

record Deployment =
  deploymentName :: string
  deploymentNamespace :: string
  deploymentRest :: string

record StatefulSet =
  statefulSetName :: string
  statefulSetNamespace :: string
  statefulSetRest :: string

record Unit =
  unitName :: string
  unitContent :: "string option"

record FileContentInline =
  inlineEncoding :: string
  inlineData :: string

record FileContentSecretRef =
  secretRefName :: string
  secretRefDataKey :: string

record FileContent =
  contentSecretRef :: "FileContentSecretRef option"
  contentInline :: "FileContentInline option"

text \<open>\<^verbatim>\<open>Permissions\<close> is a \<^verbatim>\<open>*int32\<close>; the mutator only ever stores the constant 0644
  there.\<close>

record File =
  filePath :: string
  filePermissions :: "int option"
  fileContent :: FileContent

record OperatingSystemConfig =
  oscName :: string
  oscNamespace :: string
  oscPurpose :: string
  oscUnits :: "Unit list"
  oscFiles :: "File list"

datatype object =
    ServiceObj Service
  | DeploymentObj Deployment
  | StatefulSetObj StatefulSet
  | OperatingSystemConfigObj OperatingSystemConfig
  | OtherObj string
    \<comment> \<open>a \<^verbatim>\<open>runtime.Object\<close> of any other concrete type\<close>

record UnitOption =
  optionSection :: string
  optionName :: string
  optionValue :: string

subsection \<open>Constants declared outside the file\<close>

text \<open>The well-known names come from Gardener's \<^verbatim>\<open>common\<close> package, the purpose from the
  extensions API, the codec identifier from the \<^verbatim>\<open>cloudinit\<close> package. Their values are
  not in the source at hand, so they are parameters.\<close>

record constants =
  KubeAPIServerDeploymentName :: string
  KubeControllerManagerDeploymentName :: string
  KubeSchedulerDeploymentName :: string
  EtcdMainStatefulSetName :: string
  EtcdEventsStatefulSetName :: string
  OperatingSystemConfigPurposeReconcile :: string
  B64FileCodecID :: string

definition cloudProviderConfigPath :: string where
  "cloudProviderConfigPath = ''/var/lib/kubelet/cloudprovider.conf''"

subsection \<open>The collaborators of the mutator\<close>

text \<open>
  A method of the \<^verbatim>\<open>Ensurer\<close> that mutates its argument through a pointer returns the
  argument as it leaves it, beside the error. \<open>'k\<close> is the kubelet configuration,
  \<open>'c\<close> the cluster.
\<close>

record ('k, 'c) Ensurer =
  EnsureKubeAPIServerService :: "Service \<Rightarrow> error option \<times> Service"
  EnsureKubeAPIServerDeployment :: "Deployment \<Rightarrow> error option \<times> Deployment"
  EnsureKubeControllerManagerDeployment :: "Deployment \<Rightarrow> error option \<times> Deployment"
  EnsureKubeSchedulerDeployment :: "Deployment \<Rightarrow> error option \<times> Deployment"
  EnsureETCDStatefulSet :: "StatefulSet \<Rightarrow> 'c \<Rightarrow> error option \<times> StatefulSet"
  EnsureKubeletServiceUnitOptions :: "UnitOption list \<Rightarrow> error + UnitOption list"
  EnsureKubeletConfiguration :: "'k \<Rightarrow> error option \<times> 'k"
  EnsureKubernetesGeneralConfiguration :: "string \<Rightarrow> error option \<times> string"
  ShouldProvisionKubeletCloudProviderConfig :: bool
  EnsureKubeletCloudProviderConfig :: "string \<Rightarrow> string \<Rightarrow> error option \<times> string"

text \<open>\<^verbatim>\<open>Serialize\<close> returns Go's pair \<^verbatim>\<open>(string, error)\<close>: the caller assigns the string
  before it looks at the error.\<close>

record UnitSerializer =
  Serialize :: "UnitOption list \<Rightarrow> string \<times> error option"
  Deserialize :: "string \<Rightarrow> error + UnitOption list"

record 'k KubeletConfigCodec =
  kubeletEncode :: "'k \<Rightarrow> string \<Rightarrow> error + FileContentInline"
  kubeletDecode :: "FileContentInline \<Rightarrow> error + 'k"

record FileContentInlineCodec =
  fciEncode :: "string \<Rightarrow> string \<Rightarrow> error + FileContentInline"
  fciDecode :: "FileContentInline \<Rightarrow> error + string"

text \<open>The struct \<^verbatim>\<open>mutator\<close>; of its client only the cluster lookup
  \<^verbatim>\<open>extensionscontroller.GetCluster(ctx, m.client, namespace)\<close> is used.\<close>

record ('k, 'c) mutator =
  GetCluster :: "string \<Rightarrow> error + 'c"
  ensurer :: "('k, 'c) Ensurer"
  unitSerializer :: UnitSerializer
  kubeletConfigCodec :: "'k KubeletConfigCodec"
  fciCodec :: FileContentInlineCodec

text \<open>The calls of \<^verbatim>\<open>Ensurer\<close> methods, in the order they are made.\<close>

datatype call =
    CallEnsureKubeAPIServerService
  | CallEnsureKubeAPIServerDeployment
  | CallEnsureKubeControllerManagerDeployment
  | CallEnsureKubeSchedulerDeployment
  | CallEnsureETCDStatefulSet
  | CallEnsureKubeletServiceUnitOptions
  | CallEnsureKubeletConfiguration
  | CallEnsureKubernetesGeneralConfiguration
  | CallShouldProvisionKubeletCloudProviderConfig
  | CallEnsureKubeletCloudProviderConfig

subsection \<open>Helpers of package controlplane\<close>

fun firstIndex :: "('a \<Rightarrow> bool) \<Rightarrow> 'a list \<Rightarrow> nat option" where
  "firstIndex P [] = None"
| "firstIndex P (x # xs) =
     (if P x then Some 0 else (case firstIndex P xs of None \<Rightarrow> None | Some i \<Rightarrow> Some (Suc i)))"

text \<open>Modelled from the spec: \<^verbatim>\<open>controlplane.UnitWithName\<close> is not in the source at hand;
  the spec has the mutator \<^emph>\<open>locate the unit named "kubelet.service"\<close> and overwrite its
  content in place. The pointer it returns is the position of the first unit of that
  name.\<close>

definition UnitWithName :: "Unit list \<Rightarrow> string \<Rightarrow> nat option" where
  "UnitWithName units name = firstIndex (\<lambda>u. unitName u = name) units"

text \<open>Modelled from the spec: \<^verbatim>\<open>controlplane.FileWithPath\<close> is not in the source at hand;
  the spec has the mutator \<^emph>\<open>locate the file at the fixed path\<close> and overwrite its
  inline content. The pointer it returns is the position of the first file of that
  path.\<close>

definition FileWithPath :: "File list \<Rightarrow> string \<Rightarrow> nat option" where
  "FileWithPath files path = firstIndex (\<lambda>f. filePath f = path) files"

text \<open>Modelled from the spec: \<^verbatim>\<open>controlplane.EnsureFileWithPath\<close> is not in the source at
  hand; the spec calls it an \<^emph>\<open>upsert (insert-or-replace by path)\<close> of a file entry into
  the file list: the file found at that path is replaced, and without one the file is
  appended.\<close>

definition EnsureFileWithPath :: "File list \<Rightarrow> File \<Rightarrow> File list" where
  "EnsureFileWithPath items item =
     (case FileWithPath items (filePath item) of
        None \<Rightarrow> items @ [item]
      | Some i \<Rightarrow> items[i := item])"

subsection \<open>The steps of the mutation of an OperatingSystemConfig\<close>

text \<open>Every function returns the error, the object it was given a pointer to as the call
  leaves it, and the \<^verbatim>\<open>Ensurer\<close> calls it made.\<close>

definition ensureKubeletServiceUnitContent ::
  "('k, 'c) mutator \<Rightarrow> string \<Rightarrow> error option \<times> string \<times> call list" where
  "ensureKubeletServiceUnitContent m content =
     (case Deserialize (unitSerializer m) content of
        Inl err \<Rightarrow>
          (Some (Wrapped err ''could not deserialize kubelet.service unit content''), content, [])
      | Inr opts \<Rightarrow>
          (case EnsureKubeletServiceUnitOptions (ensurer m) opts of
             Inl err \<Rightarrow> (Some err, content, [CallEnsureKubeletServiceUnitOptions])
           | Inr opts' \<Rightarrow>
               (case Serialize (unitSerializer m) opts' of
                  (content', Some err) \<Rightarrow>
                    (Some (Wrapped err ''could not serialize kubelet.service unit options''),
                     content', [CallEnsureKubeletServiceUnitOptions])
                | (content', None) \<Rightarrow> (None, content', [CallEnsureKubeletServiceUnitOptions]))))"

definition ensureKubeletConfigFileContent ::
  "('k, 'c) mutator \<Rightarrow> FileContentInline \<Rightarrow> error option \<times> FileContentInline \<times> call list" where
  "ensureKubeletConfigFileContent m fci =
     (case kubeletDecode (kubeletConfigCodec m) fci of
        Inl err \<Rightarrow> (Some (Wrapped err ''could not decode kubelet configuration''), fci, [])
      | Inr kubeletConfig \<Rightarrow>
          (case EnsureKubeletConfiguration (ensurer m) kubeletConfig of
             (Some err, kubeletConfig') \<Rightarrow> (Some err, fci, [CallEnsureKubeletConfiguration])
           | (None, kubeletConfig') \<Rightarrow>
               (case kubeletEncode (kubeletConfigCodec m) kubeletConfig' (inlineEncoding fci) of
                  Inl err \<Rightarrow>
                    (Some (Wrapped err ''could not encode kubelet configuration''), fci,
                     [CallEnsureKubeletConfiguration])
                | Inr newFCI \<Rightarrow> (None, newFCI, [CallEnsureKubeletConfiguration]))))"

definition ensureKubernetesGeneralConfiguration ::
  "('k, 'c) mutator \<Rightarrow> FileContentInline \<Rightarrow> error option \<times> FileContentInline \<times> call list" where
  "ensureKubernetesGeneralConfiguration m fci =
     (case fciDecode (fciCodec m) fci of
        Inl err \<Rightarrow>
          (Some (Wrapped err ''could not decode kubernetes general configuration''), fci, [])
      | Inr data \<Rightarrow>
          (case EnsureKubernetesGeneralConfiguration (ensurer m) data of
             (Some err, s) \<Rightarrow> (Some err, fci, [CallEnsureKubernetesGeneralConfiguration])
           | (None, s) \<Rightarrow>
               (case fciEncode (fciCodec m) s (inlineEncoding fci) of
                  Inl err \<Rightarrow>
                    (Some (Wrapped err ''could not encode kubernetes general configuration''), fci,
                     [CallEnsureKubernetesGeneralConfiguration])
                | Inr newFCI \<Rightarrow> (None, newFCI, [CallEnsureKubernetesGeneralConfiguration]))))"

text \<open>The file written by \<^verbatim>\<open>ensureKubeletCloudProviderConfig\<close>; \<^verbatim>\<open>0644\<close> is octal.\<close>

definition cloudProviderConfigFile :: "FileContentInline \<Rightarrow> File" where
  "cloudProviderConfigFile fci =
     \<lparr>filePath = cloudProviderConfigPath,
      filePermissions = Some (6 * 64 + 4 * 8 + 4),
      fileContent = \<lparr>contentSecretRef = None, contentInline = Some fci\<rparr>\<rparr>"

definition ensureKubeletCloudProviderConfig ::
  "constants \<Rightarrow> ('k, 'c) mutator \<Rightarrow> OperatingSystemConfig \<Rightarrow>
     error option \<times> OperatingSystemConfig \<times> call list" where
  "ensureKubeletCloudProviderConfig k m osc =
     (case EnsureKubeletCloudProviderConfig (ensurer m) [] (oscNamespace osc) of
        (Some err, s) \<Rightarrow> (Some err, osc, [CallEnsureKubeletCloudProviderConfig])
      | (None, s) \<Rightarrow>
          (case fciEncode (fciCodec m) s (B64FileCodecID k) of
             Inl err \<Rightarrow>
               (Some (Wrapped err ''could not encode kubelet cloud provider config''), osc,
                [CallEnsureKubeletCloudProviderConfig])
           | Inr fci \<Rightarrow>
               (None,
                osc\<lparr>oscFiles := EnsureFileWithPath (oscFiles osc) (cloudProviderConfigFile fci)\<rparr>,
                [CallEnsureKubeletCloudProviderConfig])))"

text \<open>The first block of \<^verbatim>\<open>mutateOperatingSystemConfig\<close>: the unit kubelet.service, if
  present and with content.\<close>

definition mutateKubeletServiceUnit ::
  "('k, 'c) mutator \<Rightarrow> OperatingSystemConfig \<Rightarrow> error option \<times> OperatingSystemConfig \<times> call list" where
  "mutateKubeletServiceUnit m osc =
     (case UnitWithName (oscUnits osc) ''kubelet.service'' of
        None \<Rightarrow> (None, osc, [])
      | Some i \<Rightarrow>
          (case unitContent (oscUnits osc ! i) of
             None \<Rightarrow> (None, osc, [])
           | Some content \<Rightarrow>
               (case ensureKubeletServiceUnitContent m content of
                  (err, content', calls) \<Rightarrow>
                    (err,
                     osc\<lparr>oscUnits := (oscUnits osc)[i := (oscUnits osc ! i)\<lparr>unitContent := Some content'\<rparr>]\<rparr>,
                     calls))))"

text \<open>The second and third block: a file at a fixed path, if present and with inline
  content, is handed to the function that rewrites the inline content.\<close>

definition mutateFileInline ::
  "string \<Rightarrow> (FileContentInline \<Rightarrow> error option \<times> FileContentInline \<times> call list) \<Rightarrow>
     OperatingSystemConfig \<Rightarrow> error option \<times> OperatingSystemConfig \<times> call list" where
  "mutateFileInline path ensure osc =
     (case FileWithPath (oscFiles osc) path of
        None \<Rightarrow> (None, osc, [])
      | Some i \<Rightarrow>
          (case contentInline (fileContent (oscFiles osc ! i)) of
             None \<Rightarrow> (None, osc, [])
           | Some fci \<Rightarrow>
               (case ensure fci of
                  (err, fci', calls) \<Rightarrow>
                    (err,
                     osc\<lparr>oscFiles :=
                           (oscFiles osc)[i := (oscFiles osc ! i)
                              \<lparr>fileContent := (fileContent (oscFiles osc ! i))\<lparr>contentInline := Some fci'\<rparr>\<rparr>]\<rparr>,
                     calls))))"

text \<open>The fourth block: the cloud provider config, if the \<^verbatim>\<open>Ensurer\<close> asks for it.\<close>

definition mutateCloudProviderConfig ::
  "constants \<Rightarrow> ('k, 'c) mutator \<Rightarrow> OperatingSystemConfig \<Rightarrow>
     error option \<times> OperatingSystemConfig \<times> call list" where
  "mutateCloudProviderConfig k m osc =
     (if ShouldProvisionKubeletCloudProviderConfig (ensurer m)
      then (case ensureKubeletCloudProviderConfig k m osc of
              (err, osc', calls) \<Rightarrow> (err, osc', CallShouldProvisionKubeletCloudProviderConfig # calls))
      else (None, osc, [CallShouldProvisionKubeletCloudProviderConfig]))"

text \<open>Go's \<^verbatim>\<open>if err := ...; err != nil { return err }\<close> between two blocks.\<close>

definition thenMutate ::
  "error option \<times> 'a \<times> call list \<Rightarrow> ('a \<Rightarrow> error option \<times> 'a \<times> call list) \<Rightarrow>
     error option \<times> 'a \<times> call list" where
  "thenMutate r f =
     (case r of
        (Some err, x, calls) \<Rightarrow> (Some err, x, calls)
      | (None, x, calls) \<Rightarrow> (case f x of (err, x', calls') \<Rightarrow> (err, x', calls @ calls')))"

definition mutateOperatingSystemConfig ::
  "constants \<Rightarrow> ('k, 'c) mutator \<Rightarrow> OperatingSystemConfig \<Rightarrow>
     error option \<times> OperatingSystemConfig \<times> call list" where
  "mutateOperatingSystemConfig k m osc =
     thenMutate
       (thenMutate
          (thenMutate (mutateKubeletServiceUnit m osc)
             (mutateFileInline ''/var/lib/kubelet/config/kubelet'' (ensureKubeletConfigFileContent m)))
          (mutateFileInline ''/etc/sysctl.d/99-k8s-general.conf''
             (ensureKubernetesGeneralConfiguration m)))
       (mutateCloudProviderConfig k m)"

subsection \<open>Mutate\<close>

definition Mutate ::
  "constants \<Rightarrow> ('k, 'c) mutator \<Rightarrow> object \<Rightarrow> error option \<times> object \<times> call list" where
  "Mutate k m obj =
     (case obj of
        ServiceObj x \<Rightarrow>
          (if serviceName x = KubeAPIServerDeploymentName k
           then (case EnsureKubeAPIServerService (ensurer m) x of
                   (err, x') \<Rightarrow> (err, ServiceObj x', [CallEnsureKubeAPIServerService]))
           else (None, obj, []))
      | DeploymentObj x \<Rightarrow>
          (if deploymentName x = KubeAPIServerDeploymentName k
           then (case EnsureKubeAPIServerDeployment (ensurer m) x of
                   (err, x') \<Rightarrow> (err, DeploymentObj x', [CallEnsureKubeAPIServerDeployment]))
           else if deploymentName x = KubeControllerManagerDeploymentName k
           then (case EnsureKubeControllerManagerDeployment (ensurer m) x of
                   (err, x') \<Rightarrow> (err, DeploymentObj x', [CallEnsureKubeControllerManagerDeployment]))
           else if deploymentName x = KubeSchedulerDeploymentName k
           then (case EnsureKubeSchedulerDeployment (ensurer m) x of
                   (err, x') \<Rightarrow> (err, DeploymentObj x', [CallEnsureKubeSchedulerDeployment]))
           else (None, obj, []))
      | StatefulSetObj x \<Rightarrow>
          (if statefulSetName x = EtcdMainStatefulSetName k \<or>
              statefulSetName x = EtcdEventsStatefulSetName k
           then (case GetCluster m (statefulSetNamespace x) of
                   Inl err \<Rightarrow>
                     (Some (Wrapped err
                        (''could not get cluster for namespace '' @ [CHR 0x27] @
                         statefulSetNamespace x @ [CHR 0x27])), obj, [])
                 | Inr cluster \<Rightarrow>
                     (case EnsureETCDStatefulSet (ensurer m) x cluster of
                        (err, x') \<Rightarrow> (err, StatefulSetObj x', [CallEnsureETCDStatefulSet])))
           else (None, obj, []))
      | OperatingSystemConfigObj x \<Rightarrow>
          (if oscPurpose x = OperatingSystemConfigPurposeReconcile k
           then (case mutateOperatingSystemConfig k m x of
                   (err, x', calls) \<Rightarrow> (err, OperatingSystemConfigObj x', calls))
           else (None, obj, []))
      | OtherObj other \<Rightarrow> (None, obj, []))"

section \<open>Notions of the statements and proofs\<close>

subsection \<open>The progress summary\<close>

text \<open>The name a resource type has in the summary, and the piece
  \<^verbatim>\<open>fmt.Sprintf("%d <name>, ", count)\<close> that a check appends to the message when it queries
  the type: \<open>s\<close> is the state before the tick, \<open>s'\<close> the state after it.\<close>

fun resourceLabel :: "resource \<Rightarrow> string" where
  "resourceLabel Machines = ''machines''"
| "resourceLabel MachineSets = ''machine sets''"
| "resourceLabel MachineDeployments = ''machine deployments''"
| "resourceLabel MachineClasses = ''machine classes''"
| "resourceLabel MachineClassSecrets = ''machine class secrets''"

definition fragment :: "resource \<Rightarrow> waitState \<Rightarrow> waitState \<Rightarrow> string" where
  "fragment r s s' =
     (if countOf r s \<noteq> 0 then Sprintf_d (countOf r s') @ '' '' @ resourceLabel r @ '', '' else [])"

subsection \<open>What the store holds\<close>

text \<open>The number of objects of a resource type in a snapshot, as the wait counts them
  (for the secrets, those that carry a finalizer); \<open>None\<close> when the list call fails.\<close>

fun storeCount :: "resource \<Rightarrow> snapshot \<Rightarrow> nat option" where
  "storeCount Machines env =
     (case listedMachines env of Inl e \<Rightarrow> None | Inr items \<Rightarrow> Some (length items))"
| "storeCount MachineSets env =
     (case listedMachineSets env of Inl e \<Rightarrow> None | Inr items \<Rightarrow> Some (length items))"
| "storeCount MachineDeployments env =
     (case listedMachineDeployments env of Inl e \<Rightarrow> None | Inr items \<Rightarrow> Some (length items))"
| "storeCount MachineClasses env =
     (case listedMachineClasses env of Inl e \<Rightarrow> None | Inr items \<Rightarrow> Some (length items))"
| "storeCount MachineClassSecrets env =
     (case listedMachineClassSecrets env of
        Inl e \<Rightarrow> None
      | Inr items \<Rightarrow> Some (length (filter (\<lambda>x. length (secretFinalizers x) \<noteq> 0) items)))"

subsection \<open>The wait in terms of the store\<close>

text \<open>The resource types in the order in which a tick checks them, and for each type
  the types checked before it and after it.\<close>

definition allResources :: "resource list" where
  "allResources = [Machines, MachineSets, MachineDeployments, MachineClasses, MachineClassSecrets]"

fun earlier :: "resource \<Rightarrow> resource list" where
  "earlier Machines = []"
| "earlier MachineSets = [Machines]"
| "earlier MachineDeployments = [Machines, MachineSets]"
| "earlier MachineClasses = [Machines, MachineSets, MachineDeployments]"
| "earlier MachineClassSecrets = [Machines, MachineSets, MachineDeployments, MachineClasses]"

fun later :: "resource \<Rightarrow> resource list" where
  "later Machines = [MachineSets, MachineDeployments, MachineClasses, MachineClassSecrets]"
| "later MachineSets = [MachineDeployments, MachineClasses, MachineClassSecrets]"
| "later MachineDeployments = [MachineClasses, MachineClassSecrets]"
| "later MachineClasses = [MachineClassSecrets]"
| "later MachineClassSecrets = []"

text \<open>The failed machines that the machine deployments of a snapshot report.\<close>

definition failedMachinesListed :: "snapshot \<Rightarrow> MachineSummary list" where
  "failedMachinesListed env =
     (case listedMachineDeployments env of
        Inl e \<Rightarrow> []
      | Inr items \<Rightarrow> concat (map failedMachines items))"

text \<open>The list call of a resource type passes in a snapshot: it returns no error, and
  for the machine deployments no listed deployment reports a failed machine.\<close>

definition listingPasses :: "resource \<Rightarrow> snapshot \<Rightarrow> bool" where
  "listingPasses r env \<longleftrightarrow>
     listError r env = None \<and> (r = MachineDeployments \<longrightarrow> failedMachinesListed env = [])"

text \<open>One of the first \<open>k\<close> snapshots holds no object of the resource type (for the
  secrets, none that carries a finalizer).\<close>

definition listedEmptyBefore :: "resource \<Rightarrow> snapshot list \<Rightarrow> nat \<Rightarrow> bool" where
  "listedEmptyBefore r ticks k \<longleftrightarrow> (\<exists>env\<in>set (take k ticks). storeCount r env = Some 0)"

text \<open>Tick \<open>k\<close> continues, stated of the snapshots alone: the list call of every type
  that no earlier snapshot holds empty passes, and after this snapshot some type has
  still not been held empty.\<close>

definition tickContinues :: "snapshot list \<Rightarrow> nat \<Rightarrow> bool" where
  "tickContinues ticks k \<longleftrightarrow>
     (\<forall>r. \<not> listedEmptyBefore r ticks k \<longrightarrow> listingPasses r (ticks ! k)) \<and>
     (\<exists>r. \<not> listedEmptyBefore r ticks (Suc k))"

text \<open>Tick \<open>k\<close> performs the list call of a resource type, stated of the snapshots alone:
  no earlier snapshot holds the type empty, and the list calls that the tick makes before
  this one, in the order of the source, all pass.\<close>

definition performed :: "resource \<Rightarrow> snapshot list \<Rightarrow> nat \<Rightarrow> bool" where
  "performed r ticks k \<longleftrightarrow>
     \<not> listedEmptyBefore r ticks k \<and>
     (\<forall>q\<in>set (earlier r). \<not> listedEmptyBefore q ticks k \<longrightarrow> listingPasses q (ticks ! k))"

text \<open>The check of a resource type, and the checks of a list of types one after the
  other; \<open>checks\<close> is \<open>runChecks\<close> on \<open>allResources\<close> (lemma \<open>checks_runChecks\<close>).\<close>

fun checkOf :: "resource \<Rightarrow> snapshot \<Rightarrow> waitState \<Rightarrow> error option \<times> waitState" where
  "checkOf Machines = checkMachines"
| "checkOf MachineSets = checkMachineSets"
| "checkOf MachineDeployments = checkMachineDeployments"
| "checkOf MachineClasses = checkMachineClasses"
| "checkOf MachineClassSecrets = checkMachineClassSecrets"

definition runChecks ::
  "snapshot \<Rightarrow> resource list \<Rightarrow> error option \<times> waitState \<Rightarrow> error option \<times> waitState" where
  "runChecks env rs x = foldl (\<lambda>x r. andThen x (checkOf r env)) x rs"

text \<open>What a tick that returns no error does to the counter of a resource type: a
  counter at zero stays at zero, any other counter becomes the number of objects that the
  snapshot holds.\<close>

definition observes :: "resource \<Rightarrow> snapshot \<Rightarrow> waitState \<Rightarrow> waitState \<Rightarrow> bool" where
  "observes r env s s' \<longleftrightarrow>
     (countOf r s = 0 \<longrightarrow> countOf r s' = 0) \<and>
     (countOf r s \<noteq> 0 \<longrightarrow> storeCount r env = Some (nat (countOf r s')) \<and> 0 \<le> countOf r s')"

text \<open>The state in which tick \<open>k\<close> of a trace starts.\<close>

definition preState :: "((bool \<times> error option) \<times> waitState) list \<Rightarrow> nat \<Rightarrow> waitState" where
  "preState tr k = (if k = 0 then initialWaitState else snd (tr ! (k - 1)))"

text \<open>The piece of the summary for a resource type, built from the snapshot of the tick:
  the number of objects the snapshot holds, for a type whose counter was not zero before
  the tick.\<close>

definition observedFragment :: "resource \<Rightarrow> waitState \<Rightarrow> snapshot \<Rightarrow> string" where
  "observedFragment r s env =
     (if countOf r s \<noteq> 0
      then (case storeCount r env of
              Some n \<Rightarrow> Sprintf_d (int n) @ '' '' @ resourceLabel r @ '', ''
            | None \<Rightarrow> [])
      else [])"

subsection \<open>Invariants of a tick\<close>

text \<open>A resource type whose counter is zero and that the tick has not queried.\<close>

definition untouched :: "resource \<Rightarrow> waitState \<Rightarrow> bool" where
  "untouched r s \<longleftrightarrow> countOf r s = 0 \<and> r \<notin> set (queried s)"

text \<open>A list call that fails is the error of the tick.\<close>

definition failsFast :: "snapshot \<Rightarrow> error option \<times> waitState \<Rightarrow> bool" where
  "failsFast env x \<longleftrightarrow> (\<forall>r\<in>set (queried (snd x)). \<forall>e. listError r env = Some e \<longrightarrow> fst x = Some e)"

text \<open>A tick that returns an error leaves a counter that is not zero.\<close>

definition errKeepsOpen :: "error option \<times> waitState \<Rightarrow> bool" where
  "errKeepsOpen x \<longleftrightarrow> (fst x \<noteq> None \<longrightarrow> \<not> allZero (snd x))"


text \<open>What the check of one resource type does to the state when it returns no error.\<close>

definition stepOf :: "resource \<Rightarrow> waitState \<Rightarrow> waitState \<Rightarrow> bool" where
  "stepOf r s s' \<longleftrightarrow>
     msg s' = msg s @ fragment r s s' \<and>
     queried s' = queried s @ (if countOf r s \<noteq> 0 then [r] else []) \<and>
     (\<forall>q. q \<noteq> r \<longrightarrow> countOf q s' = countOf q s) \<and>
     (countOf r s = 0 \<longrightarrow> countOf r s' = 0)"

subsection \<open>The fan-out under every schedule\<close>

text \<open>The machine with the label set, as \<^verbatim>\<open>markMachineForcefulDeletion\<close> hands it to the
  store, and the error the labelling of a machine ends with: none for a machine that
  carries the label, the answer of the store to the update otherwise. \<open>ue\<close> is the
  store's \<open>updateError\<close>, which no step changes.\<close>

definition withForceDeletionLabel :: "Machine \<Rightarrow> Machine" where
  "withForceDeletionLabel m =
     m\<lparr>machineLabels :=
         Some ((case machineLabels m of None \<Rightarrow> Map.empty | Some ls \<Rightarrow> ls)
                 (forceDeletionLabelKey \<mapsto> forceDeletionLabelValue))\<rparr>"

definition labellingError :: "(Machine \<Rightarrow> error option) \<Rightarrow> Machine \<Rightarrow> error option" where
  "labellingError ue m =
     (if hasForceDeletionLabel m then None else ue (withForceDeletionLabel m))"

text \<open>The errors of the machines whose labelling fails: as a set, and in the order of the
  list.\<close>

definition errorsFrom :: "(Machine \<Rightarrow> error option) \<Rightarrow> Machine list \<Rightarrow> error set" where
  "errorsFrom ue items = {e. \<exists>m\<in>set items. labellingError ue m = Some e}"

definition labellingErrors :: "(Machine \<Rightarrow> error option) \<Rightarrow> Machine list \<Rightarrow> error list" where
  "labellingErrors ue items =
     concat (map (\<lambda>m. case labellingError ue m of None \<Rightarrow> [] | Some e \<Rightarrow> [e]) items)"

text \<open>The state in which the goroutines have been started.\<close>

definition spawnAll :: "client \<Rightarrow> Machine list \<Rightarrow> fanout" where
  "spawnAll c items = \<lparr>fanClient = c, errorList = [], tasks = map Spawned items\<rparr>"

text \<open>Three invariants of the steps. While the task of a machine whose labelling fails
  has not finished, its failure is still on its way, and afterwards the error list is not
  empty.\<close>

definition failureKept :: "(Machine \<Rightarrow> error option) \<Rightarrow> nat \<Rightarrow> Machine \<Rightarrow> fanout \<Rightarrow> bool" where
  "failureKept ue j m st \<longleftrightarrow>
     updateError (fanClient st) = ue \<and> j < length (tasks st) \<and>
     (errorList st \<noteq> [] \<or>
      (case tasks st ! j of
         Spawned m' \<Rightarrow> m' = m
       | Failing e \<Rightarrow> True
       | Appending seen e \<Rightarrow> True
       | Finished \<Rightarrow> False))"

text \<open>Every error in the list, and every error a task still holds, is the error of a
  listed machine.\<close>

definition errorsSound :: "(Machine \<Rightarrow> error option) \<Rightarrow> Machine list \<Rightarrow> fanout \<Rightarrow> bool" where
  "errorsSound ue items st \<longleftrightarrow>
     updateError (fanClient st) = ue \<and> length (tasks st) = length items \<and>
     set (errorList st) \<subseteq> errorsFrom ue items \<and>
     (\<forall>i<length items.
        case tasks st ! i of
          Spawned m \<Rightarrow> m = items ! i
        | Failing e \<Rightarrow> e \<in> errorsFrom ue items
        | Appending seen e \<Rightarrow> e \<in> errorsFrom ue items \<and> set seen \<subseteq> errorsFrom ue items
        | Finished \<Rightarrow> True)"

text \<open>The store keeps the machines in their places; a machine that carried the label
  keeps it, and once the task of a machine whose labelling does not fail has run, the
  machine carries the label in the store.\<close>

definition labelsKept :: "(Machine \<Rightarrow> error option) \<Rightarrow> Machine list \<Rightarrow> fanout \<Rightarrow> bool" where
  "labelsKept ue items st \<longleftrightarrow>
     updateError (fanClient st) = ue \<and> length (tasks st) = length items \<and>
     map machineName (storedMachines (fanClient st)) = map machineName items \<and>
     (\<forall>i<length items.
        (hasForceDeletionLabel (items ! i) \<longrightarrow>
           hasForceDeletionLabel (storedMachines (fanClient st) ! i)) \<and>
        (case tasks st ! i of
           Spawned m \<Rightarrow> m = items ! i
         | _ \<Rightarrow> labellingError ue (items ! i) = None \<longrightarrow>
                 hasForceDeletionLabel (storedMachines (fanClient st) ! i)))"

subsection \<open>Properties of the codecs\<close>

text \<open>A codec keeps the encoding when what it encodes carries the encoding it was asked
  for; it round-trips when encoding what it decoded, with the encoding of the original,
  gives the original back.\<close>

definition kubeletCodecKeepsEncoding :: "'k KubeletConfigCodec \<Rightarrow> bool" where
  "kubeletCodecKeepsEncoding c \<longleftrightarrow>
     (\<forall>v enc f. kubeletEncode c v enc = Inr f \<longrightarrow> inlineEncoding f = enc)"

definition kubeletCodecRoundTrips :: "'k KubeletConfigCodec \<Rightarrow> bool" where
  "kubeletCodecRoundTrips c \<longleftrightarrow>
     (\<forall>f v. kubeletDecode c f = Inr v \<longrightarrow> kubeletEncode c v (inlineEncoding f) = Inr f)"

definition fciCodecKeepsEncoding :: "FileContentInlineCodec \<Rightarrow> bool" where
  "fciCodecKeepsEncoding c \<longleftrightarrow>
     (\<forall>v enc f. fciEncode c v enc = Inr f \<longrightarrow> inlineEncoding f = enc)"

definition fciCodecRoundTrips :: "FileContentInlineCodec \<Rightarrow> bool" where
  "fciCodecRoundTrips c \<longleftrightarrow>
     (\<forall>f v. fciDecode c f = Inr v \<longrightarrow> fciEncode c v (inlineEncoding f) = Inr f)"

section \<open>Concrete inputs\<close>

subsection \<open>Machines and stores\<close>

definition machineA :: Machine where
  "machineA = \<lparr>machineName = ''machine-a'', machineLabels = None\<rparr>"

definition machineB :: Machine where
  "machineB = \<lparr>machineName = ''machine-b'', machineLabels = Some [''role'' \<mapsto> ''worker'']\<rparr>"

definition markedMachine :: Machine where
  "markedMachine =
     \<lparr>machineName = ''machine-c'',
      machineLabels = Some [forceDeletionLabelKey \<mapsto> forceDeletionLabelValue]\<rparr>"

text \<open>A store that holds two unmarked machines and rejects every update.\<close>

definition refusingStore :: client where
  "refusingStore =
     \<lparr>storedMachines = [machineA, machineB],
      listMachinesError = None,
      updateError = (\<lambda>m. Some (ClientError (''update of '' @ machineName m @ '' refused''))),
      updateCalls = []\<rparr>"

text \<open>A run of \<^verbatim>\<open>Delete\<close> in which every collaborator succeeds and the two goroutines
  of the fan-out both read \<^verbatim>\<open>errorList\<close> before either writes it.\<close>

definition racingRun :: collaborators where
  "racingRun =
     \<lparr>workerDelegateError = None, getDeploymentError = None, scaleDeploymentError = None,
      applyShootChartError = None,
      goroutineSchedule = [0, 1, 0, 1, 0, 1],
      listMachineDeploymentsError = None, cleanupMachineDeploymentsError = None,
      cleanupMachineClassesError = None, cleanupMachineClassSecretsError = None,
      polled = [],
      newClientsForShootError = None, deleteShootChartError = None, deleteSeedChartError = None\<rparr>"

subsection \<open>Ticks of the wait\<close>

definition tickSetsLeft :: snapshot where
  "tickSetsLeft =
     \<lparr>listedMachines = Inr [],
      listedMachineSets = Inr [\<lparr>machineSetName = ''pool-a''\<rparr>],
      listedMachineDeployments = Inr [],
      listedMachineClasses = Inr [],
      listedMachineClassSecrets = Inr []\<rparr>"

definition tickMachineBack :: snapshot where
  "tickMachineBack =
     \<lparr>listedMachines = Inr [machineA],
      listedMachineSets = Inr [\<lparr>machineSetName = ''pool-a''\<rparr>],
      listedMachineDeployments = Inr [],
      listedMachineClasses = Inr [],
      listedMachineClassSecrets = Inr []\<rparr>"

definition tickAllGone :: snapshot where
  "tickAllGone =
     \<lparr>listedMachines = Inr [],
      listedMachineSets = Inr [],
      listedMachineDeployments = Inr [],
      listedMachineClasses = Inr [],
      listedMachineClassSecrets = Inr []\<rparr>"

definition tickDeploymentLeft :: snapshot where
  "tickDeploymentLeft =
     \<lparr>listedMachines = Inr [machineA],
      listedMachineSets = Inr [\<lparr>machineSetName = ''pool-a''\<rparr>],
      listedMachineDeployments = Inr [\<lparr>machineDeploymentName = ''pool-a'', failedMachines = []\<rparr>],
      listedMachineClasses = Inr [],
      listedMachineClassSecrets = Inr []\<rparr>"

definition tickFailedMachine :: snapshot where
  "tickFailedMachine =
     \<lparr>listedMachines = Inr [machineA],
      listedMachineSets = Inr [\<lparr>machineSetName = ''pool-a''\<rparr>],
      listedMachineDeployments =
        Inr [\<lparr>machineDeploymentName = ''pool-a'',
              failedMachines =
                [\<lparr>summaryName = ''machine-a'', lastOperationDescription = ''quota exceeded''\<rparr>]\<rparr>],
      listedMachineClasses = Inr [\<lparr>machineClassName = ''class-a''\<rparr>],
      listedMachineClassSecrets = Inr [\<lparr>secretName = ''secret-a'', secretFinalizers = [''mcm'']\<rparr>]\<rparr>"

definition tickListFails :: snapshot where
  "tickListFails =
     \<lparr>listedMachines = Inr [],
      listedMachineSets = Inl (ClientError ''connection refused''),
      listedMachineDeployments = Inr [],
      listedMachineClasses = Inr [],
      listedMachineClassSecrets = Inr []\<rparr>"

text \<open>For each resource type a snapshot in which the list call of that type, and no
  other, fails, with an error that names the type.\<close>

definition listFailure :: "resource \<Rightarrow> error" where
  "listFailure r = ClientError (''listing '' @ resourceLabel r @ '' failed'')"

definition failAt :: "resource \<Rightarrow> snapshot" where
  "failAt r =
     \<lparr>listedMachines = (if r = Machines then Inl (listFailure r) else Inr [machineA]),
      listedMachineSets = (if r = MachineSets then Inl (listFailure r) else Inr []),
      listedMachineDeployments = (if r = MachineDeployments then Inl (listFailure r) else Inr []),
      listedMachineClasses = (if r = MachineClasses then Inl (listFailure r) else Inr []),
      listedMachineClassSecrets = (if r = MachineClassSecrets then Inl (listFailure r) else Inr [])\<rparr>"

subsection \<open>A mutator\<close>

definition exampleConstants :: constants where
  "exampleConstants =
     \<lparr>KubeAPIServerDeploymentName = ''kube-apiserver'',
      KubeControllerManagerDeploymentName = ''kube-controller-manager'',
      KubeSchedulerDeploymentName = ''kube-scheduler'',
      EtcdMainStatefulSetName = ''etcd-main'',
      EtcdEventsStatefulSetName = ''etcd-events'',
      OperatingSystemConfigPurposeReconcile = ''reconcile'',
      B64FileCodecID = ''b64''\<rparr>"

text \<open>An \<^verbatim>\<open>Ensurer\<close> that leaves everything as it is and asks for the cloud provider
  config \<^verbatim>\<open>CONFIG\<close>; codecs that carry the value as the data and the requested encoding as
  the tag.\<close>

definition exampleMutator :: "(string, string) mutator" where
  "exampleMutator =
     \<lparr>GetCluster = (\<lambda>namespace. Inr namespace),
      ensurer =
        \<lparr>EnsureKubeAPIServerService = (\<lambda>x. (None, x)),
         EnsureKubeAPIServerDeployment = (\<lambda>x. (None, x)),
         EnsureKubeControllerManagerDeployment = (\<lambda>x. (None, x)),
         EnsureKubeSchedulerDeployment = (\<lambda>x. (None, x)),
         EnsureETCDStatefulSet = (\<lambda>x cluster. (None, x)),
         EnsureKubeletServiceUnitOptions = (\<lambda>opts. Inr opts),
         EnsureKubeletConfiguration = (\<lambda>v. (None, v)),
         EnsureKubernetesGeneralConfiguration = (\<lambda>s. (None, s)),
         ShouldProvisionKubeletCloudProviderConfig = True,
         EnsureKubeletCloudProviderConfig = (\<lambda>s namespace. (None, ''CONFIG''))\<rparr>,
      unitSerializer = \<lparr>Serialize = (\<lambda>opts. ([], None)), Deserialize = (\<lambda>s. Inr [])\<rparr>,
      kubeletConfigCodec =
        \<lparr>kubeletEncode = (\<lambda>v enc. Inr \<lparr>inlineEncoding = enc, inlineData = v\<rparr>),
         kubeletDecode = (\<lambda>f. Inr (inlineData f))\<rparr>,
      fciCodec =
        \<lparr>fciEncode = (\<lambda>v enc. Inr \<lparr>inlineEncoding = enc, inlineData = v\<rparr>),
         fciDecode = (\<lambda>f. Inr (inlineData f))\<rparr>\<rparr>"

definition exampleConfig :: OperatingSystemConfig where
  "exampleConfig =
     \<lparr>oscName = ''cloud-config'',
      oscNamespace = ''shoot--foo--bar'',
      oscPurpose = ''reconcile'',
      oscUnits = [],
      oscFiles =
        [\<lparr>filePath = ''/etc/sysctl.d/99-k8s-general.conf'',
          filePermissions = None,
          fileContent =
            \<lparr>contentSecretRef = None,
             contentInline = Some \<lparr>inlineEncoding = ''b64'', inlineData = ''net.ipv4.ip_forward = 1''\<rparr>\<rparr>\<rparr>]\<rparr>"

text \<open>A config that already holds two files at the cloud provider config path.\<close>

definition duplicateConfig :: OperatingSystemConfig where
  "duplicateConfig =
     \<lparr>oscName = ''cloud-config'',
      oscNamespace = ''shoot--foo--bar'',
      oscPurpose = ''reconcile'',
      oscUnits = [],
      oscFiles =
        [\<lparr>filePath = ''/var/lib/kubelet/cloudprovider.conf'',
          filePermissions = Some 420,
          fileContent =
            \<lparr>contentSecretRef = None,
             contentInline = Some \<lparr>inlineEncoding = ''b64'', inlineData = ''STALE-1''\<rparr>\<rparr>\<rparr>,
         \<lparr>filePath = ''/var/lib/kubelet/cloudprovider.conf'',
          filePermissions = Some 384,
          fileContent =
            \<lparr>contentSecretRef = None,
             contentInline = Some \<lparr>inlineEncoding = ''b64'', inlineData = ''STALE-2''\<rparr>\<rparr>\<rparr>]\<rparr>"

definition exampleInline :: FileContentInline where
  "exampleInline = \<lparr>inlineEncoding = ''b64'', inlineData = ''net.ipv4.ip_forward = 1''\<rparr>"

text \<open>The definitions that evaluate the concrete inputs.\<close>

lemmas example_defs = machineA_def machineB_def markedMachine_def refusingStore_def racingRun_def
  tickSetsLeft_def tickMachineBack_def tickAllGone_def tickDeploymentLeft_def tickFailedMachine_def
  tickListFails_def

lemmas tick_defs = waitUntilMachineResourcesDeleted_def condition_def checks_def andThen_def
  checkMachines_def checkMachineSets_def checkMachineDeployments_def checkMachineClasses_def
  checkMachineClassSecrets_def allZero_def TrimSuffix_def Sprintf_d_def decimal.simps
  initialWaitState_def Let_def

lemmas fan_defs = markAllMachinesForcefulDeletion_def ListMachines_def runSchedule_def drain_def
  stepTask_def markMachineForcefulDeletion_def Update_def Let_def
  forceDeletionLabelKey_def forceDeletionLabelValue_def

lemmas mutator_defs = mutateOperatingSystemConfig_def thenMutate_def mutateKubeletServiceUnit_def
  mutateFileInline_def mutateCloudProviderConfig_def ensureKubeletCloudProviderConfig_def
  ensureKubeletConfigFileContent_def ensureKubernetesGeneralConfiguration_def
  ensureKubeletServiceUnitContent_def UnitWithName_def FileWithPath_def EnsureFileWithPath_def
  cloudProviderConfigFile_def cloudProviderConfigPath_def exampleMutator_def exampleConstants_def
  exampleConfig_def

section \<open>Lemmas on the fan-out and on Delete\<close>

text \<open>
  What the marking step guarantees whatever the schedule of the goroutines is, a
  schedule being an interleaving of their atomic steps as above: every task
  finishes (\<open>runSchedule_all_finished\<close>); an aggregate error is returned exactly when
  the labelling of some machine fails, and it holds only errors of machines whose
  labelling failed (\<open>markAll_every_schedule\<close>); the store keeps every label it held and
  holds the label of every machine whose labelling did not fail
  (\<open>markAll_keeps_labels\<close>). When the goroutines run one after the other, the aggregate
  error lists the error of every failed machine (\<open>markAll_in_order\<close>).
\<close>

lemma mark_error: "fst (markMachineForcefulDeletion c m) = labellingError (updateError c) m"
  by (auto simp: markMachineForcefulDeletion_def labellingError_def hasForceDeletionLabel_def
      withForceDeletionLabel_def Update_def Let_def split: option.splits)

lemma mark_updateError: "updateError (snd (snd (markMachineForcefulDeletion c m))) = updateError c"
  by (auto simp: markMachineForcefulDeletion_def Update_def Let_def split: option.splits)

lemma length_stepTask [simp]: "length (tasks (stepTask i st)) = length (tasks st)"
  by (auto simp: stepTask_def split: task.splits prod.splits)

lemma updateError_stepTask [simp]: "updateError (fanClient (stepTask i st)) = updateError (fanClient st)"
  using mark_updateError
  by (auto simp: stepTask_def split: task.splits prod.splits) (metis snd_conv)

lemma length_fold_stepTask [simp]: "length (tasks (fold stepTask sched st)) = length (tasks st)"
  by (induction sched arbitrary: st) auto

lemma updateError_fold_stepTask [simp]:
  "updateError (fanClient (fold stepTask sched st)) = updateError (fanClient st)"
  by (induction sched arbitrary: st) auto

lemma Finished_stepTask: "tasks st ! i = Finished \<Longrightarrow> tasks (stepTask j st) ! i = Finished"
  by (cases "i = j") (auto simp: stepTask_def split: task.splits prod.splits)

lemma Finished_fold: "tasks st ! i = Finished \<Longrightarrow> tasks (fold stepTask sched st) ! i = Finished"
  by (induction sched arbitrary: st) (auto simp: Finished_stepTask)

lemma three_steps_finish:
  assumes "i < length (tasks st)"
  shows "tasks (stepTask i (stepTask i (stepTask i st))) ! i = Finished"
proof -
  have 1: "tasks (stepTask i s) ! i = Finished"
    if "i < length (tasks s)" "\<exists>seen e. tasks s ! i = Appending seen e \<or> tasks s ! i = Finished" for s
    using that by (auto simp: stepTask_def)
  have 2: "\<exists>seen e. tasks (stepTask i s) ! i = Appending seen e \<or> tasks (stepTask i s) ! i = Finished"
    if "i < length (tasks s)" "\<exists>seen e. tasks s ! i = Failing e \<or> tasks s ! i = Appending seen e \<or> tasks s ! i = Finished" for s
    using that by (auto simp: stepTask_def)
  have 3: "\<exists>seen e. tasks (stepTask i s) ! i = Failing e \<or> tasks (stepTask i s) ! i = Appending seen e \<or> tasks (stepTask i s) ! i = Finished"
    if "i < length (tasks s)" for s
    using that by (cases "tasks s ! i") (auto simp: stepTask_def split: prod.splits option.splits)
  show ?thesis
    using assms by (intro 1 2 3) simp_all
qed

lemma drain_Suc: "drain (Suc n) = drain n @ [n, n, n]"
  by (simp add: drain_def)

lemma drain_finishes:
  "i < n \<Longrightarrow> i < length (tasks st) \<Longrightarrow> tasks (fold stepTask (drain n) st) ! i = Finished"
proof (induction n arbitrary: st)
  case 0
  then show ?case by simp
next
  case (Suc n)
  let ?st = "fold stepTask (drain n) st"
  show ?case
  proof (cases "i = n")
    case True
    have "n < length (tasks ?st)" using Suc.prems True by simp
    from three_steps_finish[OF this] True show ?thesis by (simp add: drain_Suc)
  next
    case False
    then have "tasks ?st ! i = Finished" using Suc by simp
    then show ?thesis by (simp add: drain_Suc Finished_stepTask)
  qed
qed

lemma runSchedule_all_finished:
  assumes "i < length (tasks st)"
  shows "tasks (runSchedule (sched @ drain (length (tasks st))) st) ! i = Finished"
proof -
  have "tasks (fold stepTask (drain (length (tasks st))) (fold stepTask sched st)) ! i = Finished"
    using drain_finishes[of i "length (tasks st)" "fold stepTask sched st"] assms by simp
  then show ?thesis by (simp add: runSchedule_def)
qed

lemma failureKept_stepTask:
  assumes "labellingError ue m \<noteq> None" and "failureKept ue j m st"
  shows "failureKept ue j m (stepTask i st)"
proof (cases "i < length (tasks st)")
  case False
  then show ?thesis using assms(2) by (simp add: stepTask_def)
next
  case True
  show ?thesis
  proof (cases "tasks st ! i")
    case (Spawned m')
    obtain err m'' c' where mk: "markMachineForcefulDeletion (fanClient st) m' = (err, m'', c')"
      by (cases "markMachineForcefulDeletion (fanClient st) m'")
    have err: "err = labellingError (updateError (fanClient st)) m'"
      using mark_error[of "fanClient st" m'] mk by simp
    have ue: "updateError c' = updateError (fanClient st)"
      using mark_updateError[of "fanClient st" m'] mk by simp
    show ?thesis
      using assms True Spawned mk err ue
      by (cases "i = j") (auto simp: failureKept_def stepTask_def split: option.splits)
  next
    case (Failing e)
    then show ?thesis using assms True
      by (cases "i = j") (auto simp: failureKept_def stepTask_def)
  next
    case (Appending seen e)
    then show ?thesis using assms True
      by (cases "i = j") (auto simp: failureKept_def stepTask_def)
  next
    case Finished
    then show ?thesis using assms True by (simp add: stepTask_def)
  qed
qed

lemma failureKept_fold:
  "labellingError ue m \<noteq> None \<Longrightarrow> failureKept ue j m st \<Longrightarrow> failureKept ue j m (fold stepTask sched st)"
  by (induction sched arbitrary: st) (auto simp: failureKept_stepTask)

lemma errorsSound_stepTask:
  assumes "errorsSound ue items st"
  shows "errorsSound ue items (stepTask i st)"
proof (cases "i < length (tasks st)")
  case False
  then show ?thesis using assms by (simp add: stepTask_def)
next
  case True
  then have i: "i < length items" using assms by (simp add: errorsSound_def)
  from assms i have ti: "case tasks st ! i of
          Spawned m \<Rightarrow> m = items ! i
        | Failing e \<Rightarrow> e \<in> errorsFrom ue items
        | Appending seen e \<Rightarrow> e \<in> errorsFrom ue items \<and> set seen \<subseteq> errorsFrom ue items
        | Finished \<Rightarrow> True" by (simp add: errorsSound_def)
  have others: "\<And>k t. k < length items \<Longrightarrow> k \<noteq> i \<Longrightarrow> (tasks st)[i := t] ! k = tasks st ! k"
    by simp
  show ?thesis
  proof (cases "tasks st ! i")
    case (Spawned m')
    with ti have m': "m' = items ! i" by simp
    obtain err m'' c' where mk: "markMachineForcefulDeletion (fanClient st) m' = (err, m'', c')"
      by (cases "markMachineForcefulDeletion (fanClient st) m'")
    have err: "err = labellingError ue m'"
      using mark_error[of "fanClient st" m'] mk assms by (simp add: errorsSound_def)
    have ue: "updateError c' = ue"
      using mark_updateError[of "fanClient st" m'] mk assms by (simp add: errorsSound_def)
    have mem: "\<And>e. err = Some e \<Longrightarrow> e \<in> errorsFrom ue items"
      using err m' i by (auto simp: errorsFrom_def)
    have st': "stepTask i st = st\<lparr>fanClient := c',
                     tasks := (tasks st)[i := (case err of None \<Rightarrow> Finished | Some e \<Rightarrow> Failing e)]\<rparr>"
      using True Spawned mk by (simp add: stepTask_def)
    show ?thesis
      unfolding st' errorsSound_def using assms ue mem True
      by (auto simp: errorsSound_def nth_list_update split: option.splits)
  next
    case (Failing e)
    then have st': "stepTask i st = st\<lparr>tasks := (tasks st)[i := Appending (errorList st) e]\<rparr>"
      using True by (simp add: stepTask_def)
    show ?thesis
      unfolding st' errorsSound_def using assms ti Failing True
      by (auto simp: errorsSound_def nth_list_update)
  next
    case (Appending seen e)
    then have st': "stepTask i st = st\<lparr>errorList := seen @ [e], tasks := (tasks st)[i := Finished]\<rparr>"
      using True by (simp add: stepTask_def)
    show ?thesis
      unfolding st' errorsSound_def using assms ti Appending True
      by (auto simp: errorsSound_def nth_list_update)
  next
    case Finished
    then show ?thesis using assms True by (simp add: stepTask_def)
  qed
qed

lemma errorsSound_fold:
  "errorsSound ue items st \<Longrightarrow> errorsSound ue items (fold stepTask sched st)"
  by (induction sched arbitrary: st) (auto simp: errorsSound_stepTask)

lemma hasLabel_with [simp]: "hasForceDeletionLabel (withForceDeletionLabel m)"
  by (simp add: hasForceDeletionLabel_def withForceDeletionLabel_def)

lemma name_with [simp]: "machineName (withForceDeletionLabel m) = machineName m"
  by (simp add: withForceDeletionLabel_def)

lemma mark_store:
  "storedMachines (snd (snd (markMachineForcefulDeletion c m))) =
     (if labellingError (updateError c) m = None \<and> \<not> hasForceDeletionLabel m
      then map (\<lambda>x. if machineName x = machineName m then withForceDeletionLabel m else x) (storedMachines c)
      else storedMachines c)"
  by (auto simp: markMachineForcefulDeletion_def labellingError_def hasForceDeletionLabel_def
      withForceDeletionLabel_def Update_def Let_def split: option.splits)

lemma labelsKept_stepTask:
  assumes "labelsKept ue items st"
  shows "labelsKept ue items (stepTask i st)"
proof (cases "i < length (tasks st)")
  case False
  then show ?thesis using assms by (simp add: stepTask_def)
next
  case True
  then have i: "i < length items" using assms by (simp add: labelsKept_def)
  have len: "length (storedMachines (fanClient st)) = length items"
    using assms by (metis labelsKept_def length_map)
  show ?thesis
  proof (cases "tasks st ! i")
    case (Spawned m')
    with assms i have m': "m' = items ! i" by (auto simp: labelsKept_def)
    obtain err m'' c' where mk: "markMachineForcefulDeletion (fanClient st) m' = (err, m'', c')"
      by (cases "markMachineForcefulDeletion (fanClient st) m'")
    have ue0: "updateError (fanClient st) = ue" using assms by (simp add: labelsKept_def)
    have err: "err = labellingError ue m'"
      using mark_error[of "fanClient st" m'] mk ue0 by simp
    have ue: "updateError c' = ue"
      using mark_updateError[of "fanClient st" m'] mk ue0 by simp
    have store: "storedMachines c' =
        (if labellingError ue m' = None \<and> \<not> hasForceDeletionLabel m'
         then map (\<lambda>x. if machineName x = machineName m' then withForceDeletionLabel m' else x)
                (storedMachines (fanClient st))
         else storedMachines (fanClient st))"
      using mark_store[of "fanClient st" m'] mk ue0 by simp
    have st': "stepTask i st = st\<lparr>fanClient := c',
                     tasks := (tasks st)[i := (case err of None \<Rightarrow> Finished | Some e \<Rightarrow> Failing e)]\<rparr>"
      using True Spawned mk by (simp add: stepTask_def)
    have "map machineName (map (\<lambda>x. if machineName x = machineName m' then withForceDeletionLabel m' else x) xs) =
          map machineName xs" for xs
      by (induction xs) auto
    note relabel = this
    have "map machineName (storedMachines c') = map machineName (storedMachines (fanClient st))"
    proof (cases "labellingError ue m' = None \<and> \<not> hasForceDeletionLabel m'")
      case True
      with store have "storedMachines c' =
          map (\<lambda>x. if machineName x = machineName m' then withForceDeletionLabel m' else x)
            (storedMachines (fanClient st))" by simp
      then show ?thesis by (simp only: relabel)
    next
      case False
      with store show ?thesis by simp
    qed
    then have names: "map machineName (storedMachines c') = map machineName items"
      using assms by (simp only: labelsKept_def)
    have namei: "machineName (storedMachines (fanClient st) ! i) = machineName m'"
      using assms i m' len by (metis labelsKept_def nth_map)
    have grow: "hasForceDeletionLabel (storedMachines c' ! k)"
      if "k < length items" "hasForceDeletionLabel (storedMachines (fanClient st) ! k)" for k
      using that len by (simp add: store)
    have here: "hasForceDeletionLabel (storedMachines c' ! i)" if "labellingError ue m' = None"
    proof (cases "hasForceDeletionLabel m'")
      case True
      then have "hasForceDeletionLabel (storedMachines (fanClient st) ! i)"
        using assms i m' by (simp add: labelsKept_def)
      then show ?thesis using grow[OF i] by simp
    next
      case False
      then show ?thesis using that i len namei by (simp add: store)
    qed
    show ?thesis
      unfolding labelsKept_def
    proof (intro conjI allI impI)
      show "updateError (fanClient (stepTask i st)) = ue" by (simp add: st' ue)
      show "length (tasks (stepTask i st)) = length items" using assms by (simp add: labelsKept_def)
      show "map machineName (storedMachines (fanClient (stepTask i st))) = map machineName items"
        by (simp add: st' names)
    next
      fix k assume k: "k < length items" and "hasForceDeletionLabel (items ! k)"
      then have "hasForceDeletionLabel (storedMachines (fanClient st) ! k)"
        using assms by (simp add: labelsKept_def)
      from grow[OF k this] show "hasForceDeletionLabel (storedMachines (fanClient (stepTask i st)) ! k)"
        by (simp add: st')
    next
      fix k assume k: "k < length items"
      show "case tasks (stepTask i st) ! k of
           Spawned m \<Rightarrow> m = items ! k
         | _ \<Rightarrow> labellingError ue (items ! k) = None \<longrightarrow>
                 hasForceDeletionLabel (storedMachines (fanClient (stepTask i st)) ! k)"
      proof (cases "k = i")
        case True
        then show ?thesis using here m' i \<open>i < length (tasks st)\<close> err
          by (auto simp: st' split: option.splits)
      next
        case False
        from assms k have old: "case tasks st ! k of
           Spawned m \<Rightarrow> m = items ! k
         | _ \<Rightarrow> labellingError ue (items ! k) = None \<longrightarrow>
                 hasForceDeletionLabel (storedMachines (fanClient st) ! k)"
          by (simp add: labelsKept_def)
        then show ?thesis using False grow[OF k]
          by (cases "tasks st ! k") (auto simp: st')
      qed
    qed
  next
    case (Failing e)
    then have st': "stepTask i st = st\<lparr>tasks := (tasks st)[i := Appending (errorList st) e]\<rparr>"
      using True by (simp add: stepTask_def)
    have "\<And>k. k < length items \<Longrightarrow> (case (tasks st)[i := Appending (errorList st) e] ! k of
           Spawned m \<Rightarrow> m = items ! k
         | _ \<Rightarrow> labellingError ue (items ! k) = None \<longrightarrow>
                 hasForceDeletionLabel (storedMachines (fanClient st) ! k))"
      using assms Failing True
      by (auto simp: labelsKept_def nth_list_update split: task.splits)
    then show ?thesis using assms by (simp add: st' labelsKept_def cong: task.case_cong)
  next
    case (Appending seen e)
    then have st': "stepTask i st = st\<lparr>errorList := seen @ [e], tasks := (tasks st)[i := Finished]\<rparr>"
      using True by (simp add: stepTask_def)
    have "\<And>k. k < length items \<Longrightarrow> (case (tasks st)[i := Finished] ! k of
           Spawned m \<Rightarrow> m = items ! k
         | _ \<Rightarrow> labellingError ue (items ! k) = None \<longrightarrow>
                 hasForceDeletionLabel (storedMachines (fanClient st) ! k))"
      using assms Appending True
      by (auto simp: labelsKept_def nth_list_update split: task.splits)
    then show ?thesis using assms by (simp add: st' labelsKept_def cong: task.case_cong)
  next
    case Finished
    then show ?thesis using assms True by (simp add: stepTask_def)
  qed
qed

lemma labelsKept_fold:
  "labelsKept ue items st \<Longrightarrow> labelsKept ue items (fold stepTask sched st)"
  by (induction sched arbitrary: st) (auto simp: labelsKept_stepTask)

lemma markAll_unfold:
  "ListMachines c = Inr items \<Longrightarrow>
   markAllMachinesForcefulDeletion sched c =
     (let st = runSchedule (sched @ drain (length items)) (spawnAll c items)
      in if errorList st \<noteq> [] then (Some (LabellingFailed (errorList st)), fanClient st)
         else (None, fanClient st))"
  by (simp add: markAllMachinesForcefulDeletion_def spawnAll_def Let_def)

lemma ListMachines_items: "ListMachines c = Inr items \<Longrightarrow> items = storedMachines c"
  by (auto simp: ListMachines_def split: option.splits)

lemma spawnAll_failureKept:
  "j < length items \<Longrightarrow> failureKept (updateError c) j (items ! j) (spawnAll c items)"
  by (simp add: failureKept_def spawnAll_def)

lemma spawnAll_errorsSound: "errorsSound (updateError c) items (spawnAll c items)"
  by (simp add: errorsSound_def spawnAll_def)

lemma spawnAll_labelsKept: "labelsKept (updateError c) (storedMachines c) (spawnAll c (storedMachines c))"
  by (simp add: labelsKept_def spawnAll_def)

lemma final_errorList_nonempty:
  assumes "m \<in> set items" and "labellingError (updateError c) m \<noteq> None"
  shows "errorList (runSchedule (sched @ drain (length items)) (spawnAll c items)) \<noteq> []"
proof -
  let ?st = "runSchedule (sched @ drain (length items)) (spawnAll c items)"
  from assms(1) obtain j where j: "j < length items" "items ! j = m" by (auto simp: in_set_conv_nth)
  have "failureKept (updateError c) j m (spawnAll c items)"
    using spawnAll_failureKept[OF j(1), of c] j(2) by simp
  then have "failureKept (updateError c) j m ?st"
    unfolding runSchedule_def by (rule failureKept_fold[OF assms(2)])
  moreover have "tasks ?st ! j = Finished"
    using runSchedule_all_finished[of j "spawnAll c items" sched] j(1) by (simp add: spawnAll_def)
  ultimately show ?thesis by (simp add: failureKept_def)
qed

lemma final_errorList_sound:
  "set (errorList (runSchedule (sched @ drain (length items)) (spawnAll c items)))
     \<subseteq> errorsFrom (updateError c) items"
proof -
  have "errorsSound (updateError c) items (runSchedule (sched @ drain (length items)) (spawnAll c items))"
    unfolding runSchedule_def by (rule errorsSound_fold[OF spawnAll_errorsSound])
  then show ?thesis by (simp add: errorsSound_def)
qed

lemma markAll_every_schedule:
  assumes "ListMachines c = Inr items"
  shows "(\<exists>m\<in>set items. labellingError (updateError c) m \<noteq> None) \<longrightarrow>
           (\<exists>es. fst (markAllMachinesForcefulDeletion sched c) = Some (LabellingFailed es) \<and>
                 es \<noteq> [] \<and> set es \<subseteq> errorsFrom (updateError c) items)"
    and "(\<forall>m\<in>set items. labellingError (updateError c) m = None) \<longrightarrow>
           fst (markAllMachinesForcefulDeletion sched c) = None"
proof -
  let ?st = "runSchedule (sched @ drain (length items)) (spawnAll c items)"
  show "(\<exists>m\<in>set items. labellingError (updateError c) m \<noteq> None) \<longrightarrow>
           (\<exists>es. fst (markAllMachinesForcefulDeletion sched c) = Some (LabellingFailed es) \<and>
                 es \<noteq> [] \<and> set es \<subseteq> errorsFrom (updateError c) items)"
  proof
    assume "\<exists>m\<in>set items. labellingError (updateError c) m \<noteq> None"
    then obtain m where "m \<in> set items" "labellingError (updateError c) m \<noteq> None" by blast
    from final_errorList_nonempty[OF this, of sched] have ne: "errorList ?st \<noteq> []" .
    then have "fst (markAllMachinesForcefulDeletion sched c) = Some (LabellingFailed (errorList ?st))"
      by (simp add: markAll_unfold[OF assms] Let_def)
    with ne final_errorList_sound[of sched items c] show "\<exists>es. fst (markAllMachinesForcefulDeletion sched c) = Some (LabellingFailed es) \<and>
                 es \<noteq> [] \<and> set es \<subseteq> errorsFrom (updateError c) items" by blast
  qed
  show "(\<forall>m\<in>set items. labellingError (updateError c) m = None) \<longrightarrow>
           fst (markAllMachinesForcefulDeletion sched c) = None"
  proof
    assume "\<forall>m\<in>set items. labellingError (updateError c) m = None"
    then have "errorsFrom (updateError c) items = {}" by (auto simp: errorsFrom_def)
    with final_errorList_sound[of sched items c] have "errorList ?st = []" by simp
    then show "fst (markAllMachinesForcefulDeletion sched c) = None"
      by (simp add: markAll_unfold[OF assms] Let_def)
  qed
qed

lemma markAll_keeps_labels:
  assumes "ListMachines c = Inr items" and "markAllMachinesForcefulDeletion sched c = (res, c')"
    and "i < length items"
  shows "machineName (storedMachines c' ! i) = machineName (items ! i)"
    and "length (storedMachines c') = length items"
    and "hasForceDeletionLabel (items ! i) \<longrightarrow> hasForceDeletionLabel (storedMachines c' ! i)"
    and "labellingError (updateError c) (items ! i) = None \<longrightarrow> hasForceDeletionLabel (storedMachines c' ! i)"
proof -
  let ?st = "runSchedule (sched @ drain (length items)) (spawnAll c items)"
  have items: "items = storedMachines c" by (rule ListMachines_items[OF assms(1)])
  have c': "c' = fanClient ?st"
    using assms(2) by (auto simp: markAll_unfold[OF assms(1)] Let_def split: if_splits)
  have kept: "labelsKept (updateError c) items ?st"
    unfolding runSchedule_def items by (intro labelsKept_fold spawnAll_labelsKept)
  have fin: "tasks ?st ! i = Finished"
    using runSchedule_all_finished[of i "spawnAll c items" sched] assms(3) by (simp add: spawnAll_def)
  from kept have names: "map machineName (storedMachines c') = map machineName items"
    by (simp add: labelsKept_def c')
  then show len: "length (storedMachines c') = length items" by (metis length_map)
  from names assms(3) len show "machineName (storedMachines c' ! i) = machineName (items ! i)"
    by (metis nth_map)
  from kept assms(3) show "hasForceDeletionLabel (items ! i) \<longrightarrow> hasForceDeletionLabel (storedMachines c' ! i)"
    by (simp add: labelsKept_def c')
  from kept assms(3) fin show "labellingError (updateError c) (items ! i) = None \<longrightarrow> hasForceDeletionLabel (storedMachines c' ! i)"
    by (auto simp: labelsKept_def c')
qed

lemma Delete_stops_at_marking:
  assumes "workerDelegateError env = None" and "getDeploymentError env = None"
    and "scaleDeploymentError env = None" and "applyShootChartError env = None"
    and "markAllMachinesForcefulDeletion (goroutineSchedule env) c = (Some err, c')"
  shows "Delete env c =
     (Some (Wrapped err ''marking all machines for forceful deletion failed''),
      [InstantiateDelegate, GetDeployment, ScaleDeployment, ApplyShootChart, MarkAllMachines], c')"
  using assms by (simp add: Delete_def Wrapf_def)

lemma Delete_wait_error:
  assumes "workerDelegateError env = None" and "getDeploymentError env = None"
    and "scaleDeploymentError env = None" and "applyShootChartError env = None"
    and "markAllMachinesForcefulDeletion (goroutineSchedule env) c = (None, c')"
    and "listMachineDeploymentsError env = None" and "cleanupMachineDeploymentsError env = None"
    and "cleanupMachineClassesError env = None" and "cleanupMachineClassSecretsError env = None"
    and "fst (waitUntilMachineResourcesDeleted (polled env)) = Some err"
  shows "fst (Delete env c) = Some (DetermineError (waitFailureMessage err))"
  using assms by (simp add: Delete_def Wrapf_def)

lemma run_task_to_end:
  assumes "k < length (tasks st)" and "tasks st ! k = Spawned m"
  shows "errorList (fold stepTask [k, k, k] st) =
           errorList st @ (case labellingError (updateError (fanClient st)) m of None \<Rightarrow> [] | Some e \<Rightarrow> [e])"
    and "tasks (fold stepTask [k, k, k] st) = (tasks st)[k := Finished]"
proof -
  obtain err m' c' where mk: "markMachineForcefulDeletion (fanClient st) m = (err, m', c')"
    by (cases "markMachineForcefulDeletion (fanClient st) m")
  have err: "err = labellingError (updateError (fanClient st)) m"
    using mark_error[of "fanClient st" m] mk by simp
  have f: "fold stepTask [k, k, k] st = stepTask k (stepTask k (stepTask k st))" by simp
  show "errorList (fold stepTask [k, k, k] st) =
           errorList st @ (case labellingError (updateError (fanClient st)) m of None \<Rightarrow> [] | Some e \<Rightarrow> [e])"
    and "tasks (fold stepTask [k, k, k] st) = (tasks st)[k := Finished]"
  proof (atomize (full), cases err)
    case None
    have 1: "stepTask k st = st\<lparr>fanClient := c', tasks := (tasks st)[k := Finished]\<rparr>"
      using assms mk None by (simp add: stepTask_def)
    have 2: "stepTask k (st\<lparr>fanClient := c', tasks := (tasks st)[k := Finished]\<rparr>) =
             st\<lparr>fanClient := c', tasks := (tasks st)[k := Finished]\<rparr>"
      using assms(1) by (simp add: stepTask_def)
    show "errorList (fold stepTask [k, k, k] st) =
           errorList st @ (case labellingError (updateError (fanClient st)) m of None \<Rightarrow> [] | Some e \<Rightarrow> [e]) \<and>
          tasks (fold stepTask [k, k, k] st) = (tasks st)[k := Finished]"
      unfolding f 1 2 using None err by simp
  next
    case (Some e)
    have 1: "stepTask k st = st\<lparr>fanClient := c', tasks := (tasks st)[k := Failing e]\<rparr>"
      using assms mk Some by (simp add: stepTask_def)
    have 2: "stepTask k (st\<lparr>fanClient := c', tasks := (tasks st)[k := Failing e]\<rparr>) =
             st\<lparr>fanClient := c', tasks := (tasks st)[k := Appending (errorList st) e]\<rparr>"
      using assms(1) by (simp add: stepTask_def)
    have 3: "stepTask k (st\<lparr>fanClient := c', tasks := (tasks st)[k := Appending (errorList st) e]\<rparr>) =
             st\<lparr>fanClient := c', errorList := errorList st @ [e], tasks := (tasks st)[k := Finished]\<rparr>"
      using assms(1) by (simp add: stepTask_def)
    show "errorList (fold stepTask [k, k, k] st) =
           errorList st @ (case labellingError (updateError (fanClient st)) m of None \<Rightarrow> [] | Some e \<Rightarrow> [e]) \<and>
          tasks (fold stepTask [k, k, k] st) = (tasks st)[k := Finished]"
      unfolding f 1 2 3 using Some err by simp
  qed
qed

lemma drain_in_order:
  assumes "n \<le> length items"
  shows "tasks (fold stepTask (drain n) (spawnAll c items)) =
           replicate n Finished @ map Spawned (drop n items) \<and>
         errorList (fold stepTask (drain n) (spawnAll c items)) =
           labellingErrors (updateError c) (take n items)"
  using assms
proof (induction n)
  case 0
  then show ?case by (simp add: drain_def spawnAll_def labellingErrors_def)
next
  case (Suc n)
  let ?st = "fold stepTask (drain n) (spawnAll c items)"
  from Suc have IH: "tasks ?st = replicate n Finished @ map Spawned (drop n items)"
    "errorList ?st = labellingErrors (updateError c) (take n items)" by simp_all
  have n: "n < length items" using Suc.prems by simp
  have len: "n < length (tasks ?st)" using n by (simp add: spawnAll_def)
  have sp: "tasks ?st ! n = Spawned (items ! n)"
    using n by (simp add: IH(1) nth_append)
  have ue: "updateError (fanClient ?st) = updateError c" by (simp add: spawnAll_def)
  note r = run_task_to_end[OF len sp, unfolded ue]
  have t: "(replicate n Finished @ map Spawned (drop n items))[n := Finished] =
           replicate (Suc n) Finished @ map Spawned (drop (Suc n) items)"
    using n by (simp add: list_update_append Cons_nth_drop_Suc[symmetric] replicate_append_same)
  have e: "labellingErrors (updateError c) (take n items) @
             (case labellingError (updateError c) (items ! n) of None \<Rightarrow> [] | Some e \<Rightarrow> [e]) =
           labellingErrors (updateError c) (take (Suc n) items)"
    using n by (simp add: labellingErrors_def take_Suc_conv_app_nth)
  have "fold stepTask (drain (Suc n)) (spawnAll c items) = fold stepTask [n, n, n] ?st"
    by (simp add: drain_Suc)
  then show ?case using r IH t e by simp
qed

lemma markAll_in_order:
  assumes "ListMachines c = Inr items"
  shows "fst (markAllMachinesForcefulDeletion [] c) =
           (if labellingErrors (updateError c) items \<noteq> []
            then Some (LabellingFailed (labellingErrors (updateError c) items)) else None)"
  using drain_in_order[of "length items" items c]
  by (simp add: markAll_unfold[OF assms] runSchedule_def Let_def)

section \<open>Lemmas on the wait\<close>

lemma untouched_checkMachines: "untouched r s \<Longrightarrow> untouched r (snd (checkMachines env s))"
  by (cases r) (auto simp: untouched_def checkMachines_def split: sum.splits)
lemma untouched_checkMachineSets: "untouched r s \<Longrightarrow> untouched r (snd (checkMachineSets env s))"
  by (cases r) (auto simp: untouched_def checkMachineSets_def split: sum.splits)
lemma untouched_checkMachineDeployments: "untouched r s \<Longrightarrow> untouched r (snd (checkMachineDeployments env s))"
  by (cases r) (auto simp: untouched_def checkMachineDeployments_def Let_def split: sum.splits option.splits)
lemma untouched_checkMachineClasses: "untouched r s \<Longrightarrow> untouched r (snd (checkMachineClasses env s))"
  by (cases r) (auto simp: untouched_def checkMachineClasses_def split: sum.splits)
lemma untouched_checkMachineClassSecrets: "untouched r s \<Longrightarrow> untouched r (snd (checkMachineClassSecrets env s))"
  by (cases r) (auto simp: untouched_def checkMachineClassSecrets_def Let_def split: sum.splits)

lemma untouched_andThen:
  "untouched r (snd x) \<Longrightarrow> (\<And>s. untouched r s \<Longrightarrow> untouched r (snd (f s))) \<Longrightarrow> untouched r (snd (andThen x f))"
  by (cases x) (auto simp: andThen_def split: option.splits)

lemma untouched_checks: "untouched r s \<Longrightarrow> untouched r (snd (checks env s))"
  unfolding checks_def
  by (intro untouched_andThen untouched_checkMachines untouched_checkMachineSets
      untouched_checkMachineDeployments untouched_checkMachineClasses untouched_checkMachineClassSecrets)

lemma untouched_reset: "countOf r s0 = 0 \<Longrightarrow> untouched r (s0\<lparr>msg := [], queried := [], logged := None\<rparr>)"
  by (cases r) (simp_all add: untouched_def)

lemma untouched_logged: "untouched r s \<Longrightarrow> untouched r (s\<lparr>logged := x\<rparr>)"
  by (cases r) (simp_all add: untouched_def)

lemma condition_untouched:
  assumes "countOf r s0 = 0"
  shows "untouched r (snd (condition env s0))"
proof -
  have "untouched r (snd (checks env (s0\<lparr>msg := [], queried := [], logged := None\<rparr>)))"
    using assms by (intro untouched_checks untouched_reset)
  then show ?thesis
    by (auto simp: condition_def untouched_logged split: prod.splits option.splits)
qed

lemma PollUntil_untouched:
  "PollUntil condition ticks s = (res, tr) \<Longrightarrow> countOf r s = 0 \<Longrightarrow> j < length tr \<Longrightarrow>
     untouched r (snd (tr ! j))"
proof (induction ticks arbitrary: s tr j)
  case Nil
  then show ?case by simp
next
  case (Cons e es)
  let ?r = "condition e s"
  have u: "untouched r (snd ?r)" using Cons.prems(2) by (rule condition_untouched)
  show ?case
  proof (cases "snd (fst ?r) \<noteq> None \<or> fst (fst ?r)")
    case True
    then have "tr = [?r]" using Cons.prems(1) by (auto simp: Let_def split: if_splits)
    then show ?thesis using u Cons.prems(3) by simp
  next
    case False
    then obtain tr' where tr: "tr = ?r # tr'" and rec: "PollUntil condition es (snd ?r) = (res, tr')"
      using Cons.prems(1) by (auto simp: Let_def split: prod.splits)
    show ?thesis
    proof (cases j)
      case 0
      then show ?thesis using u tr by simp
    next
      case (Suc j')
      then have "j' < length tr'" using Cons.prems(3) tr by simp
      from Cons.IH[OF rec _ this] u have "untouched r (snd (tr' ! j'))" by (simp add: untouched_def)
      then show ?thesis using Suc tr by simp
    qed
  qed
qed

lemma PollUntil_once_zero:
  "PollUntil condition ticks s = (res, tr) \<Longrightarrow> i < j \<Longrightarrow> j < length tr \<Longrightarrow> countOf r (snd (tr ! i)) = 0 \<Longrightarrow>
     untouched r (snd (tr ! j))"
proof (induction ticks arbitrary: s tr i j)
  case Nil
  then show ?case by simp
next
  case (Cons e es)
  let ?r = "condition e s"
  have "\<not> (snd (fst ?r) \<noteq> None \<or> fst (fst ?r))"
  proof
    assume "snd (fst ?r) \<noteq> None \<or> fst (fst ?r)"
    then have "tr = [?r]" using Cons.prems(1) by (auto simp: Let_def split: if_splits)
    then show False using Cons.prems(2,3) by simp
  qed
  then obtain tr' where tr: "tr = ?r # tr'" and rec: "PollUntil condition es (snd ?r) = (res, tr')"
    using Cons.prems(1) by (auto simp: Let_def split: prod.splits)
  obtain j' where j: "j = Suc j'" using Cons.prems(2) by (cases j) auto
  then have j': "j' < length tr'" using Cons.prems(3) tr by simp
  show ?case
  proof (cases i)
    case 0
    then have "countOf r (snd ?r) = 0" using Cons.prems(4) tr by simp
    from PollUntil_untouched[OF rec this j'] show ?thesis using j tr by simp
  next
    case (Suc i')
    then have "i' < j'" "countOf r (snd (tr' ! i')) = 0" using Cons.prems(2,4) j tr by simp_all
    from Cons.IH[OF rec this(1) j' this(2)] show ?thesis using j tr by simp
  qed
qed

lemma failsFast_checkMachines: "failsFast env (None, s) \<Longrightarrow> failsFast env (checkMachines env s)"
  by (auto simp: failsFast_def checkMachines_def split: sum.splits)
lemma failsFast_checkMachineSets: "failsFast env (None, s) \<Longrightarrow> failsFast env (checkMachineSets env s)"
  by (auto simp: failsFast_def checkMachineSets_def split: sum.splits)
lemma failsFast_checkMachineDeployments: "failsFast env (None, s) \<Longrightarrow> failsFast env (checkMachineDeployments env s)"
  by (auto simp: failsFast_def checkMachineDeployments_def Let_def split: sum.splits option.splits)
lemma failsFast_checkMachineClasses: "failsFast env (None, s) \<Longrightarrow> failsFast env (checkMachineClasses env s)"
  by (auto simp: failsFast_def checkMachineClasses_def split: sum.splits)
lemma failsFast_checkMachineClassSecrets: "failsFast env (None, s) \<Longrightarrow> failsFast env (checkMachineClassSecrets env s)"
  by (auto simp: failsFast_def checkMachineClassSecrets_def Let_def split: sum.splits)

lemma failsFast_andThen:
  "failsFast env x \<Longrightarrow> (\<And>s. failsFast env (None, s) \<Longrightarrow> failsFast env (f s)) \<Longrightarrow> failsFast env (andThen x f)"
  by (cases x) (auto simp: andThen_def split: option.splits)

lemma failsFast_checks: "queried s = [] \<Longrightarrow> failsFast env (checks env s)"
  unfolding checks_def
  by (intro failsFast_andThen failsFast_checkMachines failsFast_checkMachineSets
      failsFast_checkMachineDeployments failsFast_checkMachineClasses failsFast_checkMachineClassSecrets)
     (simp add: failsFast_def)

lemma condition_list_error:
  assumes "r \<in> set (queried (snd (condition env s0)))" and "listError r env = Some e"
  shows "fst (condition env s0) = (False, Some e)"
proof -
  let ?s = "s0\<lparr>msg := [], queried := [], logged := None\<rparr>"
  have ff: "failsFast env (checks env ?s)" by (rule failsFast_checks) simp
  obtain err s' where c: "checks env ?s = (err, s')" by (cases "checks env ?s")
  have "r \<in> set (queried s')" using assms(1) c
    by (auto simp: condition_def split: option.splits if_splits)
  with ff c assms(2) have "err = Some e" by (auto simp: failsFast_def)
  then show ?thesis using c by (simp add: condition_def)
qed

lemma PollUntil_length: "PollUntil cond ticks s = (res, tr) \<Longrightarrow> length tr \<le> length ticks"
  by (induction ticks arbitrary: s tr) (auto simp: Let_def split: if_splits prod.splits)

lemma PollUntil_nth:
  "PollUntil cond ticks s = (res, tr) \<Longrightarrow> k < length tr \<Longrightarrow>
     tr ! k = cond (ticks ! k) (if k = 0 then s else snd (tr ! (k - 1)))"
proof (induction ticks arbitrary: s tr k)
  case Nil
  then show ?case by simp
next
  case (Cons e es)
  let ?r = "cond e s"
  show ?case
  proof (cases "snd (fst ?r) \<noteq> None \<or> fst (fst ?r)")
    case True
    then have "tr = [?r]" using Cons.prems(1) by (auto simp: Let_def split: if_splits)
    then show ?thesis using Cons.prems(2) by simp
  next
    case False
    then obtain tr' where tr: "tr = ?r # tr'" and rec: "PollUntil cond es (snd ?r) = (res, tr')"
      using Cons.prems(1) by (auto simp: Let_def split: prod.splits)
    show ?thesis
    proof (cases k)
      case 0
      then show ?thesis using tr by simp
    next
      case (Suc k')
      then have "k' < length tr'" using Cons.prems(2) tr by simp
      from Cons.IH[OF rec this] show ?thesis using Suc tr by (cases k') simp_all
    qed
  qed
qed

lemma PollUntil_stops:
  "PollUntil cond ticks s = (res, tr) \<Longrightarrow> k < length tr \<Longrightarrow>
     fst (tr ! k) \<noteq> (False, None) \<Longrightarrow>
     length tr = Suc k \<and> res = (if snd (fst (tr ! k)) \<noteq> None then snd (fst (tr ! k)) else None)"
proof (induction ticks arbitrary: s tr k)
  case Nil
  then show ?case by simp
next
  case (Cons e es)
  let ?r = "cond e s"
  show ?case
  proof (cases "snd (fst ?r) \<noteq> None \<or> fst (fst ?r)")
    case True
    then have "tr = [?r] \<and> res = (if snd (fst ?r) \<noteq> None then snd (fst ?r) else None)"
      using Cons.prems(1) by (auto simp: Let_def split: if_splits)
    then show ?thesis using Cons.prems(2) by simp
  next
    case False
    then obtain tr' where tr: "tr = ?r # tr'" and rec: "PollUntil cond es (snd ?r) = (res, tr')"
      using Cons.prems(1) by (auto simp: Let_def split: prod.splits)
    from False have r: "fst ?r = (False, None)" by (cases ?r) auto
    show ?thesis
    proof (cases k)
      case 0
      then show ?thesis using tr r Cons.prems(3) by simp
    next
      case (Suc k')
      then have "k' < length tr'" "fst (tr' ! k') \<noteq> (False, None)" using Cons.prems(2,3) tr by simp_all
      from Cons.IH[OF rec this] show ?thesis using Suc tr by simp
    qed
  qed
qed

lemma PollUntil_continues:
  "PollUntil cond ticks s = (res, tr) \<Longrightarrow> \<forall>k<length tr. fst (tr ! k) = (False, None) \<Longrightarrow>
     res = Some ErrWaitTimeout \<and> length tr = length ticks"
proof (induction ticks arbitrary: s tr)
  case Nil
  then show ?case by simp
next
  case (Cons e es)
  let ?r = "cond e s"
  have "\<not> (snd (fst ?r) \<noteq> None \<or> fst (fst ?r))"
  proof
    assume a: "snd (fst ?r) \<noteq> None \<or> fst (fst ?r)"
    then have "tr = [?r]" using Cons.prems(1) by (auto simp: Let_def split: if_splits)
    with Cons.prems(2) have "fst ?r = (False, None)" by simp
    with a show False by simp
  qed
  then obtain tr' where tr: "tr = ?r # tr'" and rec: "PollUntil cond es (snd ?r) = (res, tr')"
    using Cons.prems(1) by (auto simp: Let_def split: prod.splits)
  have "\<forall>k<length tr'. fst (tr' ! k) = (False, None)"
    using Cons.prems(2) tr by auto
  from Cons.IH[OF rec this] show ?case using tr by simp
qed

lemma PollUntil_success:
  "PollUntil cond ticks s = (None, tr) \<Longrightarrow> tr \<noteq> [] \<and> fst (last tr) = (True, None)"
proof (induction ticks arbitrary: s tr)
  case Nil
  then show ?case by simp
next
  case (Cons e es)
  let ?r = "cond e s"
  show ?case
  proof (cases "snd (fst ?r) \<noteq> None \<or> fst (fst ?r)")
    case True
    then have "tr = [?r] \<and> snd (fst ?r) = None \<and> fst (fst ?r)"
      using Cons.prems(1) by (auto simp: Let_def split: if_splits)
    then show ?thesis by (cases ?r) auto
  next
    case False
    then obtain tr' where tr: "tr = ?r # tr'" and rec: "PollUntil cond es (snd ?r) = (None, tr')"
      using Cons.prems(1) by (auto simp: Let_def split: prod.splits)
    from Cons.IH[OF rec] show ?thesis using tr by simp
  qed
qed

lemma errKeepsOpen_checkMachines: "errKeepsOpen (checkMachines env s)"
  by (auto simp: errKeepsOpen_def allZero_def checkMachines_def split: sum.splits)
lemma errKeepsOpen_checkMachineSets: "errKeepsOpen (checkMachineSets env s)"
  by (auto simp: errKeepsOpen_def allZero_def checkMachineSets_def split: sum.splits)
lemma firstFailedMachine_Some: "firstFailedMachine items = Some fm \<Longrightarrow> \<exists>d\<in>set items. fm \<in> set (failedMachines d)"
  by (induction items) (auto split: list.splits)
lemma errKeepsOpen_checkMachineDeployments: "errKeepsOpen (checkMachineDeployments env s)"
  by (auto simp: errKeepsOpen_def allZero_def checkMachineDeployments_def Let_def dest: firstFailedMachine_Some split: sum.splits option.splits)
lemma errKeepsOpen_checkMachineClasses: "errKeepsOpen (checkMachineClasses env s)"
  by (auto simp: errKeepsOpen_def allZero_def checkMachineClasses_def split: sum.splits)
lemma errKeepsOpen_checkMachineClassSecrets: "errKeepsOpen (checkMachineClassSecrets env s)"
  by (auto simp: errKeepsOpen_def allZero_def checkMachineClassSecrets_def Let_def split: sum.splits)

lemma errKeepsOpen_andThen:
  "errKeepsOpen x \<Longrightarrow> (\<And>s. errKeepsOpen (f s)) \<Longrightarrow> errKeepsOpen (andThen x f)"
  by (cases x) (auto simp: andThen_def errKeepsOpen_def split: option.splits)

lemma errKeepsOpen_checks: "errKeepsOpen (checks env s)"
  unfolding checks_def
  by (intro errKeepsOpen_andThen errKeepsOpen_checkMachines errKeepsOpen_checkMachineSets
      errKeepsOpen_checkMachineDeployments errKeepsOpen_checkMachineClasses errKeepsOpen_checkMachineClassSecrets)

lemma allZero_logged [simp]: "allZero (s\<lparr>logged := x\<rparr>) = allZero s"
  by (simp add: allZero_def)

lemma condition_outcome:
  "fst (condition env s0) = (True, None) \<longleftrightarrow> allZero (snd (condition env s0))"
  using errKeepsOpen_checks[of env "s0\<lparr>msg := [], queried := [], logged := None\<rparr>"]
  by (auto simp: condition_def errKeepsOpen_def split: prod.splits option.splits)





lemma andThen_None: "andThen x f = (None, s') \<Longrightarrow> \<exists>s. x = (None, s) \<and> f s = (None, s')"
  by (cases x) (auto simp: andThen_def split: option.splits)

lemma stepOf_frame: "stepOf r s s' \<Longrightarrow> q \<noteq> r \<Longrightarrow> countOf q s' = countOf q s"
  by (simp add: stepOf_def)
lemma stepOf_msg: "stepOf r s s' \<Longrightarrow> msg s' = msg s @ fragment r s s'"
  by (simp add: stepOf_def)
lemma stepOf_queried: "stepOf r s s' \<Longrightarrow> queried s' = queried s @ (if countOf r s \<noteq> 0 then [r] else [])"
  by (simp add: stepOf_def)

lemma checkMachines_None: "checkMachines env s = (None, s') \<Longrightarrow> stepOf Machines s s'"
  unfolding stepOf_def
  apply (auto simp: checkMachines_def fragment_def split: sum.splits if_splits)
  subgoal for x q by (cases q) auto
  done
lemma checkMachineSets_None: "checkMachineSets env s = (None, s') \<Longrightarrow> stepOf MachineSets s s'"
  unfolding stepOf_def
  apply (auto simp: checkMachineSets_def fragment_def split: sum.splits if_splits)
  subgoal for x q by (cases q) auto
  done
lemma checkMachineDeployments_None: "checkMachineDeployments env s = (None, s') \<Longrightarrow> stepOf MachineDeployments s s'"
  unfolding stepOf_def
  apply (auto simp: checkMachineDeployments_def fragment_def Let_def split: sum.splits if_splits option.splits)
  subgoal for x q by (cases q) auto
  done
lemma checkMachineClasses_None: "checkMachineClasses env s = (None, s') \<Longrightarrow> stepOf MachineClasses s s'"
  unfolding stepOf_def
  apply (auto simp: checkMachineClasses_def fragment_def split: sum.splits if_splits)
  subgoal for x q by (cases q) auto
  done
lemma checkMachineClassSecrets_None: "checkMachineClassSecrets env s = (None, s') \<Longrightarrow> stepOf MachineClassSecrets s s'"
  unfolding stepOf_def
  apply (auto simp: checkMachineClassSecrets_def fragment_def Let_def split: sum.splits if_splits)
  subgoal for x q by (cases q) auto
  done

lemma checks_None:
  assumes "checks env s = (None, s')"
  shows "msg s' = msg s @ concat (map (\<lambda>r. fragment r s s')
            [Machines, MachineSets, MachineDeployments, MachineClasses, MachineClassSecrets])"
    and "queried s' = queried s @ filter (\<lambda>r. countOf r s \<noteq> 0)
            [Machines, MachineSets, MachineDeployments, MachineClasses, MachineClassSecrets]"
proof -
  from assms obtain s4 where 5: "checkMachineClassSecrets env s4 = (None, s')"
    and c4: "andThen (andThen (andThen (checkMachines env s) (checkMachineSets env))
               (checkMachineDeployments env)) (checkMachineClasses env) = (None, s4)"
    unfolding checks_def by (blast dest: andThen_None)
  from c4 obtain s3 where 4: "checkMachineClasses env s3 = (None, s4)"
    and c3: "andThen (andThen (checkMachines env s) (checkMachineSets env))
               (checkMachineDeployments env) = (None, s3)"
    by (blast dest: andThen_None)
  from c3 obtain s2 where 3: "checkMachineDeployments env s2 = (None, s3)"
    and c2: "andThen (checkMachines env s) (checkMachineSets env) = (None, s2)"
    by (blast dest: andThen_None)
  from c2 obtain s1 where 2: "checkMachineSets env s1 = (None, s2)"
    and 1: "checkMachines env s = (None, s1)"
    by (blast dest: andThen_None)
  have st: "stepOf Machines s s1" "stepOf MachineSets s1 s2" "stepOf MachineDeployments s2 s3"
    "stepOf MachineClasses s3 s4" "stepOf MachineClassSecrets s4 s'"
    using checkMachines_None[OF 1] checkMachineSets_None[OF 2] checkMachineDeployments_None[OF 3]
      checkMachineClasses_None[OF 4] checkMachineClassSecrets_None[OF 5] by blast+
  have before: "countOf MachineSets s1 = countOf MachineSets s"
    "countOf MachineDeployments s2 = countOf MachineDeployments s"
    "countOf MachineClasses s3 = countOf MachineClasses s"
    "countOf MachineClassSecrets s4 = countOf MachineClassSecrets s"
    using st(1-4) by (simp_all add: stepOf_frame del: countOf.simps)
  have after: "countOf Machines s1 = countOf Machines s'"
    "countOf MachineSets s2 = countOf MachineSets s'"
    "countOf MachineDeployments s3 = countOf MachineDeployments s'"
    "countOf MachineClasses s4 = countOf MachineClasses s'"
    using st(2-5) by (simp_all add: stepOf_frame del: countOf.simps)
  have m: "msg s' = ((((msg s @ fragment Machines s s1) @ fragment MachineSets s1 s2) @
      fragment MachineDeployments s2 s3) @ fragment MachineClasses s3 s4) @
      fragment MachineClassSecrets s4 s'"
    using st stepOf_msg by metis
  have q: "queried s' = ((((queried s @ (if countOf Machines s \<noteq> 0 then [Machines] else [])) @
      (if countOf MachineSets s1 \<noteq> 0 then [MachineSets] else [])) @
      (if countOf MachineDeployments s2 \<noteq> 0 then [MachineDeployments] else [])) @
      (if countOf MachineClasses s3 \<noteq> 0 then [MachineClasses] else [])) @
      (if countOf MachineClassSecrets s4 \<noteq> 0 then [MachineClassSecrets] else [])"
    using st stepOf_queried by metis
  show "msg s' = msg s @ concat (map (\<lambda>r. fragment r s s')
            [Machines, MachineSets, MachineDeployments, MachineClasses, MachineClassSecrets])"
    unfolding m by (simp add: fragment_def before after del: countOf.simps)
  show "queried s' = queried s @ filter (\<lambda>r. countOf r s \<noteq> 0)
            [Machines, MachineSets, MachineDeployments, MachineClasses, MachineClassSecrets]"
    unfolding q by (simp add: before del: countOf.simps)
qed

lemma countOf_msg [simp]: "countOf r (s\<lparr>msg := a\<rparr>) = countOf r s"
  by (cases r) simp_all
lemma countOf_queried [simp]: "countOf r (s\<lparr>queried := b\<rparr>) = countOf r s"
  by (cases r) simp_all
lemma countOf_logged [simp]: "countOf r (s\<lparr>logged := c\<rparr>) = countOf r s"
  by (cases r) simp_all

lemma condition_summary:
  assumes "condition env s = ((False, None), s')"
  shows "logged s' =
       Some (''Waiting until the following machine resources have been processed: '' @
             TrimSuffix (concat (map (\<lambda>r. fragment r s s')
                [Machines, MachineSets, MachineDeployments, MachineClasses, MachineClassSecrets])) '', '')"
   and "queried s' = filter (\<lambda>r. countOf r s \<noteq> 0)
            [Machines, MachineSets, MachineDeployments, MachineClasses, MachineClassSecrets]"
proof -
  let ?s = "s\<lparr>msg := [], queried := [], logged := None\<rparr>"
  from assms obtain s1 where c: "checks env ?s = (None, s1)" and na: "\<not> allZero s1"
    and s': "s' = s1\<lparr>logged := Some (''Waiting until the following machine resources have been processed: ''
                                     @ TrimSuffix (msg s1) '', '')\<rparr>"
    by (auto simp: condition_def split: prod.splits option.splits if_splits)
  have f: "\<And>r. fragment r ?s s1 = fragment r s s'" by (simp add: fragment_def s' del: countOf.simps)
  from checks_None[OF c] show "logged s' =
       Some (''Waiting until the following machine resources have been processed: '' @
             TrimSuffix (concat (map (\<lambda>r. fragment r s s')
                [Machines, MachineSets, MachineDeployments, MachineClasses, MachineClassSecrets])) '', '')"
    by (simp add: s' f del: countOf.simps)
  from checks_None[OF c] show "queried s' = filter (\<lambda>r. countOf r s \<noteq> 0)
            [Machines, MachineSets, MachineDeployments, MachineClasses, MachineClassSecrets]"
    by (simp add: s' del: countOf.simps)
qed

text \<open>A tick that finds all five collections empty converges.\<close>

lemma condition_all_empty:
  assumes "\<forall>r. storeCount r env = Some 0"
  shows "fst (condition env s) = (True, None)"
proof -
  have 1: "listedMachines env = Inr []" using assms[rule_format, of Machines]
    by (auto split: sum.splits)
  have 2: "listedMachineSets env = Inr []" using assms[rule_format, of MachineSets]
    by (auto split: sum.splits)
  have 3: "listedMachineDeployments env = Inr []" using assms[rule_format, of MachineDeployments]
    by (auto split: sum.splits)
  have 4: "listedMachineClasses env = Inr []" using assms[rule_format, of MachineClasses]
    by (auto split: sum.splits)
  have 5: "\<exists>items. listedMachineClassSecrets env = Inr items \<and>
             filter (\<lambda>x. length (secretFinalizers x) \<noteq> 0) items = []"
    using assms[rule_format, of MachineClassSecrets] by (auto split: sum.splits)
  let ?s = "s\<lparr>msg := [], queried := [], logged := None\<rparr>"
  obtain s1 where c1: "checkMachines env ?s = (None, s1)" and z1: "countMachines s1 = 0"
    and k1: "countMachineSets s1 = countMachineSets s" "countMachineDeployments s1 = countMachineDeployments s"
      "countMachineClasses s1 = countMachineClasses s" "countMachineClassSecrets s1 = countMachineClassSecrets s"
    by (cases "countMachines s = 0") (simp_all add: checkMachines_def 1)
  obtain s2 where c2: "checkMachineSets env s1 = (None, s2)" and z2: "countMachines s2 = 0" "countMachineSets s2 = 0"
    and k2: "countMachineDeployments s2 = countMachineDeployments s1"
      "countMachineClasses s2 = countMachineClasses s1" "countMachineClassSecrets s2 = countMachineClassSecrets s1"
    using z1 by (cases "countMachineSets s1 = 0") (simp_all add: checkMachineSets_def 2)
  obtain s3 where c3: "checkMachineDeployments env s2 = (None, s3)"
    and z3: "countMachines s3 = 0" "countMachineSets s3 = 0" "countMachineDeployments s3 = 0"
    and k3: "countMachineClasses s3 = countMachineClasses s2" "countMachineClassSecrets s3 = countMachineClassSecrets s2"
    using z2 by (cases "countMachineDeployments s2 = 0") (simp_all add: checkMachineDeployments_def 3)
  obtain s4 where c4: "checkMachineClasses env s3 = (None, s4)"
    and z4: "countMachines s4 = 0" "countMachineSets s4 = 0" "countMachineDeployments s4 = 0"
      "countMachineClasses s4 = 0"
    and k4: "countMachineClassSecrets s4 = countMachineClassSecrets s3"
    using z3 by (cases "countMachineClasses s3 = 0") (simp_all add: checkMachineClasses_def 4)
  obtain s5 where c5: "checkMachineClassSecrets env s4 = (None, s5)"
    and z5: "countMachines s5 = 0" "countMachineSets s5 = 0" "countMachineDeployments s5 = 0"
      "countMachineClasses s5 = 0" "countMachineClassSecrets s5 = 0"
    using z4 5 by (cases "countMachineClassSecrets s4 = 0") (auto simp: checkMachineClassSecrets_def)
  have "checks env ?s = (None, s5)"
    by (simp add: checks_def andThen_def c1 c2 c3 c4 c5)
  moreover have "allZero s5" using z5 by (simp add: allZero_def)
  ultimately show ?thesis by (simp add: condition_def)
qed

section \<open>Lemmas on the mutator\<close>

lemma firstIndex_Some: "firstIndex P xs = Some i \<Longrightarrow> i < length xs \<and> P (xs ! i) \<and> (\<forall>j<i. \<not> P (xs ! j))"
proof (induction xs arbitrary: i)
  case Nil
  then show ?case by simp
next
  case (Cons x xs)
  show ?case
  proof (cases "P x")
    case True
    then show ?thesis using Cons.prems by simp
  next
    case False
    then obtain i' where i: "firstIndex P xs = Some i'" "i = Suc i'"
      using Cons.prems by (auto split: option.splits)
    from Cons.IH[OF i(1)] False i(2) show ?thesis by (auto simp: less_Suc_eq_0_disj)
  qed
qed

lemma firstIndex_None: "firstIndex P xs = None \<longleftrightarrow> (\<forall>x\<in>set xs. \<not> P x)"
  by (induction xs) (auto split: option.splits)

lemma filter_update_other:
  "i < length xs \<Longrightarrow> \<not> Q (xs ! i) \<Longrightarrow> \<not> Q y \<Longrightarrow> filter Q (xs[i := y]) = filter Q xs"
proof (induction xs arbitrary: i)
  case Nil
  then show ?case by simp
next
  case (Cons x xs)
  then show ?case by (cases i) auto
qed

lemma filter_update_first:
  "firstIndex Q xs = Some i \<Longrightarrow> Q y \<Longrightarrow> filter Q (xs[i := y]) = y # tl (filter Q xs)"
proof (induction xs arbitrary: i)
  case Nil
  then show ?case by simp
next
  case (Cons x xs)
  then show ?case by (cases "Q x") (auto split: option.splits)
qed

lemma EnsureFileWithPath_filter:
  assumes "filePath item = p"
  shows "filter (\<lambda>f. filePath f = p) (EnsureFileWithPath items item) =
           item # tl (filter (\<lambda>f. filePath f = p) items)"
proof (cases "FileWithPath items p")
  case None
  then have "filter (\<lambda>f. filePath f = p) items = []"
    by (auto simp: FileWithPath_def firstIndex_None filter_empty_conv)
  then show ?thesis using None assms by (simp add: EnsureFileWithPath_def)
next
  case (Some i)
  then show ?thesis using assms
    by (simp add: EnsureFileWithPath_def FileWithPath_def filter_update_first)
qed

lemma firstIndex_Some_mem: "firstIndex P xs = Some i \<Longrightarrow> \<exists>x\<in>set xs. P x"
  using firstIndex_None[of P xs] by auto

lemma EnsureFileWithPath_length:
  "length (EnsureFileWithPath items item) =
     (if \<exists>f\<in>set items. filePath f = filePath item then length items else Suc (length items))"
proof (cases "FileWithPath items (filePath item)")
  case None
  then have "\<forall>f\<in>set items. filePath f \<noteq> filePath item"
    by (simp add: FileWithPath_def firstIndex_None)
  then show ?thesis using None by (simp add: EnsureFileWithPath_def)
next
  case (Some i)
  then have "\<exists>f\<in>set items. filePath f = filePath item"
    unfolding FileWithPath_def by (rule firstIndex_Some_mem)
  then show ?thesis using Some by (simp add: EnsureFileWithPath_def)
qed

lemma mutateFileInline_files:
  assumes "mutateFileInline path ensure osc = (err, osc', calls)" and "path \<noteq> p"
  shows "filter (\<lambda>f. filePath f = p) (oscFiles osc') = filter (\<lambda>f. filePath f = p) (oscFiles osc)"
    and "length (oscFiles osc') = length (oscFiles osc)"
    and "oscNamespace osc' = oscNamespace osc"
    and "map filePath (oscFiles osc') = map filePath (oscFiles osc)"
  using assms
  by (auto simp: mutateFileInline_def FileWithPath_def filter_update_other map_update list_update_same_conv
      split: option.splits prod.splits dest!: firstIndex_Some)

lemma mutateKubeletServiceUnit_files:
  assumes "mutateKubeletServiceUnit m osc = (err, osc', calls)"
  shows "oscFiles osc' = oscFiles osc" and "oscNamespace osc' = oscNamespace osc"
  using assms
  by (auto simp: mutateKubeletServiceUnit_def split: option.splits prod.splits)

lemma thenMutate_None:
  "thenMutate x f = (None, y, calls) \<Longrightarrow> \<exists>z c1 c2. x = (None, z, c1) \<and> f z = (None, y, c2) \<and> calls = c1 @ c2"
  by (cases x) (auto simp: thenMutate_def split: option.splits prod.splits)

lemma mutateCloudProviderConfig_run:
  assumes "ShouldProvisionKubeletCloudProviderConfig (ensurer m)"
    and "EnsureKubeletCloudProviderConfig (ensurer m) [] (oscNamespace osc) = (None, T)"
    and "fciEncode (fciCodec m) T (B64FileCodecID k) = Inr fci"
  shows "mutateCloudProviderConfig k m osc =
    (None, osc\<lparr>oscFiles := EnsureFileWithPath (oscFiles osc) (cloudProviderConfigFile fci)\<rparr>,
     [CallShouldProvisionKubeletCloudProviderConfig, CallEnsureKubeletCloudProviderConfig])"
  using assms by (simp add: mutateCloudProviderConfig_def ensureKubeletCloudProviderConfig_def)

lemma path_cloudProviderConfigFile [simp]: "filePath (cloudProviderConfigFile fci) = cloudProviderConfigPath"
  by (simp add: cloudProviderConfigFile_def)

lemma paths_differ:
  "''/var/lib/kubelet/config/kubelet'' \<noteq> cloudProviderConfigPath"
  "''/etc/sysctl.d/99-k8s-general.conf'' \<noteq> cloudProviderConfigPath"
  by (simp_all add: cloudProviderConfigPath_def)

lemma paths_member: "(\<exists>f\<in>set (xs :: File list). filePath f = p) \<longleftrightarrow> p \<in> set (map filePath xs)"
  by (induction xs) auto

lemma mutateOperatingSystemConfig_cloud:
  assumes run: "mutateOperatingSystemConfig k m osc = (None, osc', calls)"
    and should: "ShouldProvisionKubeletCloudProviderConfig (ensurer m)"
    and hook: "EnsureKubeletCloudProviderConfig (ensurer m) [] (oscNamespace osc) = (None, T)"
    and enc: "fciEncode (fciCodec m) T (B64FileCodecID k) = Inr fci"
  shows "filter (\<lambda>f. filePath f = cloudProviderConfigPath) (oscFiles osc') =
           cloudProviderConfigFile fci # tl (filter (\<lambda>f. filePath f = cloudProviderConfigPath) (oscFiles osc))"
    and "length (oscFiles osc') =
           (if \<exists>f\<in>set (oscFiles osc). filePath f = cloudProviderConfigPath
            then length (oscFiles osc) else Suc (length (oscFiles osc)))"
    and "oscNamespace osc' = oscNamespace osc"
proof -
  from run obtain o3 c3 c4 where 4: "mutateCloudProviderConfig k m o3 = (None, osc', c4)"
    and r3: "thenMutate (thenMutate (mutateKubeletServiceUnit m osc)
             (mutateFileInline ''/var/lib/kubelet/config/kubelet'' (ensureKubeletConfigFileContent m)))
          (mutateFileInline ''/etc/sysctl.d/99-k8s-general.conf''
             (ensureKubernetesGeneralConfiguration m)) = (None, o3, c3)"
    unfolding mutateOperatingSystemConfig_def by (blast dest: thenMutate_None)
  from r3 obtain o2 c2 c3' where 3: "mutateFileInline ''/etc/sysctl.d/99-k8s-general.conf''
             (ensureKubernetesGeneralConfiguration m) o2 = (None, o3, c3')"
    and r2: "thenMutate (mutateKubeletServiceUnit m osc)
             (mutateFileInline ''/var/lib/kubelet/config/kubelet'' (ensureKubeletConfigFileContent m)) = (None, o2, c2)"
    by (blast dest: thenMutate_None)
  from r2 obtain o1 c1 c2' where 2: "mutateFileInline ''/var/lib/kubelet/config/kubelet'' (ensureKubeletConfigFileContent m) o1 = (None, o2, c2')"
    and 1: "mutateKubeletServiceUnit m osc = (None, o1, c1)"
    by (blast dest: thenMutate_None)
  note f1 = mutateKubeletServiceUnit_files[OF 1]
  note f2 = mutateFileInline_files[OF 2 paths_differ(1)]
  note f3 = mutateFileInline_files[OF 3 paths_differ(2)]
  have ns: "oscNamespace o3 = oscNamespace osc" using f1 f2 f3 by simp
  have fl: "filter (\<lambda>f. filePath f = cloudProviderConfigPath) (oscFiles o3) =
            filter (\<lambda>f. filePath f = cloudProviderConfigPath) (oscFiles osc)"
    using f1 f2 f3 by simp
  have len: "length (oscFiles o3) = length (oscFiles osc)" using f1 f2 f3 by simp
  have paths: "map filePath (oscFiles o3) = map filePath (oscFiles osc)" using f1 f2 f3 by simp
  have ex: "(\<exists>f\<in>set (oscFiles o3). filePath f = cloudProviderConfigPath) =
            (\<exists>f\<in>set (oscFiles osc). filePath f = cloudProviderConfigPath)"
    using paths_member[of "oscFiles o3" cloudProviderConfigPath]
      paths_member[of "oscFiles osc" cloudProviderConfigPath] paths by simp
  have osc': "osc' = o3\<lparr>oscFiles := EnsureFileWithPath (oscFiles o3) (cloudProviderConfigFile fci)\<rparr>"
    using mutateCloudProviderConfig_run[OF should _ enc, of o3] hook ns 4 by simp
  show "filter (\<lambda>f. filePath f = cloudProviderConfigPath) (oscFiles osc') =
           cloudProviderConfigFile fci # tl (filter (\<lambda>f. filePath f = cloudProviderConfigPath) (oscFiles osc))"
    by (simp add: osc' EnsureFileWithPath_filter fl)
  show "length (oscFiles osc') =
           (if \<exists>f\<in>set (oscFiles osc). filePath f = cloudProviderConfigPath
            then length (oscFiles osc) else Suc (length (oscFiles osc)))"
    using ex by (simp add: osc' EnsureFileWithPath_length len)
  show "oscNamespace osc' = oscNamespace osc" by (simp add: osc' ns)
qed

section \<open>Evaluated runs\<close>

lemma run1_length:
  "length (snd (waitUntilMachineResourcesDeleted [tickSetsLeft, tickMachineBack, tickAllGone])) = 3"
  by (simp add: tick_defs example_defs)

lemma run2_length: "length (snd (waitUntilMachineResourcesDeleted [tickSetsLeft, tickMachineBack])) = 2"
  by (simp add: tick_defs example_defs)

lemma wait_nth:
  assumes "waitUntilMachineResourcesDeleted ticks = (res, tr)" and "k < length tr"
  shows "\<exists>s. tr ! k = condition (ticks ! k) s"
  using PollUntil_nth[OF assms(1)[unfolded waitUntilMachineResourcesDeleted_def] assms(2)] by blast

section \<open>Lemmas on the wait and the store\<close>

text \<open>
  The wait stated of the snapshots it lists. A check that returns no error leaves in the
  counter of its type the number of objects the snapshot holds (\<open>checkOf_None\<close>), so a
  tick that returns no error does that for every type whose counter was not zero
  (\<open>condition_observes\<close>). Along a run of the wait the counter of a type is zero before
  tick \<open>k\<close> exactly when one of the first \<open>k\<close> snapshots holds the type empty
  (\<open>wait_counters\<close>); the outcome of tick \<open>k\<close> is then a function of the snapshots
  (\<open>wait_outcome\<close>), every tick whose predecessors continue is reached
  (\<open>wait_reaches\<close>), and the list calls a tick records as made are those that the
  snapshots say it performs (\<open>wait_queried_iff\<close>).
\<close>

lemma firstFailedMachine_listed:
  "firstFailedMachine items = None \<longleftrightarrow> concat (map failedMachines items) = []"
  by (induction items) (auto split: list.splits)

lemma checkOf_None:
  assumes "checkOf r env s = (None, s')"
  shows "observes r env s s'" and "countOf r s \<noteq> 0 \<longrightarrow> listingPasses r env"
    and "\<forall>q. q \<noteq> r \<longrightarrow> countOf q s' = countOf q s"
proof -
  have "observes r env s s' \<and> (countOf r s \<noteq> 0 \<longrightarrow> listingPasses r env) \<and>
        (\<forall>q. q \<noteq> r \<longrightarrow> countOf q s' = countOf q s)"
  proof (cases r)
    case Machines
    then show ?thesis using assms
      apply (auto simp: observes_def listingPasses_def checkMachines_def split: sum.splits if_splits)
      subgoal for x q by (cases q) auto
      done
  next
    case MachineSets
    then show ?thesis using assms
      apply (auto simp: observes_def listingPasses_def checkMachineSets_def split: sum.splits if_splits)
      subgoal for x q by (cases q) auto
      done
  next
    case MachineDeployments
    then show ?thesis using assms
      apply (auto simp: observes_def listingPasses_def checkMachineDeployments_def Let_def
          failedMachinesListed_def firstFailedMachine_listed
          split: sum.splits if_splits option.splits)
      subgoal for x q by (cases q) auto
      done
  next
    case MachineClasses
    then show ?thesis using assms
      apply (auto simp: observes_def listingPasses_def checkMachineClasses_def split: sum.splits if_splits)
      subgoal for x q by (cases q) auto
      done
  next
    case MachineClassSecrets
    then show ?thesis using assms
      apply (auto simp: observes_def listingPasses_def checkMachineClassSecrets_def Let_def
          split: sum.splits if_splits)
      subgoal for x q by (cases q) auto
      done
  qed
  then show "observes r env s s'" and "countOf r s \<noteq> 0 \<longrightarrow> listingPasses r env"
    and "\<forall>q. q \<noteq> r \<longrightarrow> countOf q s' = countOf q s" by blast+
qed

lemma checkOf_passes:
  assumes "countOf r s \<noteq> 0 \<longrightarrow> listingPasses r env"
  shows "\<exists>s'. checkOf r env s = (None, s')"
proof (cases r)
  case Machines
  then show ?thesis using assms
    by (auto simp: listingPasses_def checkMachines_def split: sum.splits)
next
  case MachineSets
  then show ?thesis using assms
    by (auto simp: listingPasses_def checkMachineSets_def split: sum.splits)
next
  case MachineDeployments
  then show ?thesis using assms
    by (auto simp: listingPasses_def checkMachineDeployments_def Let_def failedMachinesListed_def
        dest!: firstFailedMachine_Some split: sum.splits option.splits)
next
  case MachineClasses
  then show ?thesis using assms
    by (auto simp: listingPasses_def checkMachineClasses_def split: sum.splits)
next
  case MachineClassSecrets
  then show ?thesis using assms
    by (auto simp: listingPasses_def checkMachineClassSecrets_def Let_def split: sum.splits)
qed

lemma checkOf_list_error:
  assumes "countOf r s \<noteq> 0" and "listError r env = Some e"
  shows "\<exists>s'. checkOf r env s = (Some e, s') \<and> r \<in> set (queried s')"
proof (cases r)
  case Machines
  then show ?thesis using assms by (auto simp: checkMachines_def split: sum.splits)
next
  case MachineSets
  then show ?thesis using assms by (auto simp: checkMachineSets_def split: sum.splits)
next
  case MachineDeployments
  then show ?thesis using assms by (auto simp: checkMachineDeployments_def split: sum.splits)
next
  case MachineClasses
  then show ?thesis using assms by (auto simp: checkMachineClasses_def split: sum.splits)
next
  case MachineClassSecrets
  then show ?thesis using assms by (auto simp: checkMachineClassSecrets_def split: sum.splits)
qed

lemma andThen_simps [simp]:
  "andThen (None, s) f = f s" "andThen (Some e, s) f = (Some e, s)"
  by (simp_all add: andThen_def)

lemma runChecks_simps [simp]:
  "runChecks env [] x = x"
  "runChecks env (r # rs) x = runChecks env rs (andThen x (checkOf r env))"
  by (simp_all add: runChecks_def)

lemma runChecks_append: "runChecks env (rs @ rs') x = runChecks env rs' (runChecks env rs x)"
  by (simp add: runChecks_def)

lemma runChecks_Some [simp]: "runChecks env rs (Some e, s) = (Some e, s)"
  by (induction rs) simp_all

lemma checks_runChecks: "checks env s = runChecks env allResources (None, s)"
  by (simp add: checks_def allResources_def)

lemma runChecks_None:
  assumes "distinct rs" and "runChecks env rs (None, s) = (None, s')"
  shows "(\<forall>q\<in>set rs. observes q env s s' \<and> (countOf q s \<noteq> 0 \<longrightarrow> listingPasses q env)) \<and>
         (\<forall>q. q \<notin> set rs \<longrightarrow> countOf q s' = countOf q s)"
  using assms
proof (induction rs arbitrary: s)
  case Nil
  then show ?case by simp
next
  case (Cons r rs)
  obtain x s1 where c: "checkOf r env s = (x, s1)" by (cases "checkOf r env s")
  have "x = None"
  proof (cases x)
    case (Some e)
    then show ?thesis using Cons.prems(2) c by simp
  qed simp
  with c have c': "checkOf r env s = (None, s1)" by simp
  note f = checkOf_None[OF c']
  from Cons.prems c' have run: "runChecks env rs (None, s1) = (None, s')" by simp
  from Cons.prems(1) have d: "distinct rs" and nr: "r \<notin> set rs" by simp_all
  from Cons.IH[OF d run]
  have IH: "\<forall>q\<in>set rs. observes q env s1 s' \<and> (countOf q s1 \<noteq> 0 \<longrightarrow> listingPasses q env)"
    "\<forall>q. q \<notin> set rs \<longrightarrow> countOf q s' = countOf q s1" by blast+
  have same: "countOf q s1 = countOf q s" if "q \<in> set rs" for q
    using f(3) that nr by auto
  have r': "countOf r s' = countOf r s1" using IH(2) nr by simp
  show ?case
  proof (intro conjI ballI allI impI)
    fix q assume q: "q \<in> set (r # rs)"
    show "observes q env s s'"
    proof (cases "q = r")
      case True
      then show ?thesis using f(1) r' by (simp add: observes_def)
    next
      case False
      with q have "q \<in> set rs" by simp
      then show ?thesis using IH(1) same by (simp add: observes_def)
    qed
  next
    fix q assume q: "q \<in> set (r # rs)" and o: "countOf q s \<noteq> 0"
    show "listingPasses q env"
    proof (cases "q = r")
      case True
      then show ?thesis using f(2) o by simp
    next
      case False
      with q have "q \<in> set rs" by simp
      then show ?thesis using IH(1) same o by simp
    qed
  next
    fix q assume "q \<notin> set (r # rs)"
    then show "countOf q s' = countOf q s" using IH(2) f(3) by simp
  qed
qed

lemma runChecks_passes:
  assumes "distinct rs" and "\<forall>q\<in>set rs. countOf q s \<noteq> 0 \<longrightarrow> listingPasses q env"
  shows "\<exists>s'. runChecks env rs (None, s) = (None, s')"
  using assms
proof (induction rs arbitrary: s)
  case Nil
  then show ?case by simp
next
  case (Cons r rs)
  from checkOf_passes[of r s env] Cons.prems(2)
  obtain s1 where c: "checkOf r env s = (None, s1)" by auto
  note f = checkOf_None[OF c]
  from Cons.prems(1) have d: "distinct rs" and nr: "r \<notin> set rs" by simp_all
  have "\<forall>q\<in>set rs. countOf q s1 \<noteq> 0 \<longrightarrow> listingPasses q env"
    using Cons.prems(2) f(3) nr by auto
  from Cons.IH[OF d this] show ?case using c by simp
qed

lemma resources_split: "allResources = earlier r @ r # later r"
  by (cases r) (simp_all add: allResources_def)

lemma distinct_allResources: "distinct allResources"
  by (simp add: allResources_def)

lemma set_allResources: "set allResources = UNIV"
proof -
  have "r \<in> set allResources" for r by (cases r) (simp_all add: allResources_def)
  then show ?thesis by auto
qed

lemma checks_error_free:
  "fst (checks env s) = None \<longleftrightarrow> (\<forall>r. countOf r s \<noteq> 0 \<longrightarrow> listingPasses r env)"
proof
  assume n: "fst (checks env s) = None"
  then obtain s' where "runChecks env allResources (None, s) = (None, s')"
    by (cases "checks env s") (simp add: checks_runChecks)
  from runChecks_None[OF distinct_allResources this]
  show "\<forall>r. countOf r s \<noteq> 0 \<longrightarrow> listingPasses r env" by (simp add: set_allResources)
next
  assume "\<forall>r. countOf r s \<noteq> 0 \<longrightarrow> listingPasses r env"
  then have "\<forall>q\<in>set allResources. countOf q s \<noteq> 0 \<longrightarrow> listingPasses q env" by simp
  from runChecks_passes[OF distinct_allResources this]
  show "fst (checks env s) = None" by (auto simp: checks_runChecks)
qed

lemma checks_observes:
  assumes "checks env s = (None, s')"
  shows "observes r env s s'"
  using runChecks_None[OF distinct_allResources assms[unfolded checks_runChecks]]
  by (simp add: set_allResources)

lemma checks_list_error:
  assumes "countOf r s \<noteq> 0" and "listError r env = Some e"
    and "\<forall>q\<in>set (earlier r). countOf q s \<noteq> 0 \<longrightarrow> listingPasses q env"
  shows "fst (checks env s) = Some e \<and> r \<in> set (queried (snd (checks env s)))"
proof -
  have d: "distinct (earlier r)" and nr: "r \<notin> set (earlier r)" by (cases r; simp)+
  from runChecks_passes[OF d assms(3)]
  obtain s1 where 1: "runChecks env (earlier r) (None, s) = (None, s1)" by blast
  from runChecks_None[OF d 1] nr have "countOf r s1 = countOf r s" by simp
  with assms(1) have "countOf r s1 \<noteq> 0" by simp
  from checkOf_list_error[OF this assms(2)]
  obtain s2 where 2: "checkOf r env s1 = (Some e, s2)" "r \<in> set (queried s2)" by blast
  have "checks env s = (Some e, s2)"
    unfolding checks_runChecks resources_split[of r] runChecks_append 1 using 2(1) by simp
  with 2(2) show ?thesis by simp
qed

lemma allZero_countOf: "allZero s \<longleftrightarrow> (\<forall>r. countOf r s = 0)"
proof
  assume "allZero s"
  then show "\<forall>r. countOf r s = 0"
    by (auto simp: allZero_def intro: resource.induct[of "\<lambda>r. countOf r s = 0"])
next
  assume a: "\<forall>r. countOf r s = 0"
  from a[rule_format, of Machines] a[rule_format, of MachineSets] a[rule_format, of MachineDeployments]
    a[rule_format, of MachineClasses] a[rule_format, of MachineClassSecrets]
  show "allZero s" by (simp add: allZero_def)
qed

lemma storeCount_listError: "storeCount r env = Some n \<Longrightarrow> listError r env = None"
  by (cases r) (auto split: sum.splits)

lemma storeCount_empty_passes: "storeCount r env = Some 0 \<Longrightarrow> listingPasses r env"
  by (cases r) (auto simp: listingPasses_def failedMachinesListed_def split: sum.splits)

lemma condition_error_free:
  "snd (fst (condition env s)) = None \<longleftrightarrow> (\<forall>r. countOf r s \<noteq> 0 \<longrightarrow> listingPasses r env)"
proof -
  let ?s = "s\<lparr>msg := [], queried := [], logged := None\<rparr>"
  have "snd (fst (condition env s)) = None \<longleftrightarrow> fst (checks env ?s) = None"
    by (cases "checks env ?s") (auto simp: condition_def split: option.splits)
  then show ?thesis by (simp add: checks_error_free)
qed

lemma condition_observes:
  assumes "snd (fst (condition env s)) = None"
  shows "observes r env s (snd (condition env s))"
proof -
  let ?s = "s\<lparr>msg := [], queried := [], logged := None\<rparr>"
  obtain x s1 where c: "checks env ?s = (x, s1)" by (cases "checks env ?s")
  with assms have "x = None" by (auto simp: condition_def split: option.splits)
  with c have c': "checks env ?s = (None, s1)" by simp
  from checks_observes[OF c', of r] have "observes r env s s1" by (simp add: observes_def)
  moreover have "countOf r (snd (condition env s)) = countOf r s1"
    using c' by (simp add: condition_def)
  ultimately show ?thesis by (simp add: observes_def)
qed

lemma condition_list_error_store:
  assumes "countOf r s \<noteq> 0" and "listError r env = Some e"
    and "\<forall>q\<in>set (earlier r). countOf q s \<noteq> 0 \<longrightarrow> listingPasses q env"
  shows "fst (condition env s) = (False, Some e)"
    and "r \<in> set (queried (snd (condition env s)))"
proof -
  let ?s = "s\<lparr>msg := [], queried := [], logged := None\<rparr>"
  from checks_list_error[of r ?s env e] assms
  have "fst (checks env ?s) = Some e \<and> r \<in> set (queried (snd (checks env ?s)))" by simp
  then show "fst (condition env s) = (False, Some e)"
    and "r \<in> set (queried (snd (condition env s)))"
    by (cases "checks env ?s"; simp add: condition_def)+
qed

lemma condition_converges:
  "fst (condition env s) = (True, None) \<longleftrightarrow> (\<forall>r. countOf r s \<noteq> 0 \<longrightarrow> storeCount r env = Some 0)"
proof
  assume t: "fst (condition env s) = (True, None)"
  then have n: "snd (fst (condition env s)) = None" by simp
  from t have z: "\<forall>r. countOf r (snd (condition env s)) = 0"
    by (simp add: condition_outcome allZero_countOf)
  show "\<forall>r. countOf r s \<noteq> 0 \<longrightarrow> storeCount r env = Some 0"
    using condition_observes[OF n] z by (auto simp: observes_def)
next
  assume a: "\<forall>r. countOf r s \<noteq> 0 \<longrightarrow> storeCount r env = Some 0"
  then have "\<forall>r. countOf r s \<noteq> 0 \<longrightarrow> listingPasses r env"
    by (auto intro: storeCount_empty_passes)
  then have n: "snd (fst (condition env s)) = None" by (simp add: condition_error_free)
  have "countOf r (snd (condition env s)) = 0" for r
    using condition_observes[OF n, of r] a by (cases "countOf r s = 0") (auto simp: observes_def)
  then have "allZero (snd (condition env s))" by (simp add: allZero_countOf)
  then show "fst (condition env s) = (True, None)" by (simp add: condition_outcome)
qed

lemma countOf_initial: "countOf r initialWaitState \<noteq> 0"
  by (cases r) (simp_all add: initialWaitState_def)

lemma listedEmptyBefore_0 [simp]: "\<not> listedEmptyBefore r ticks 0"
  by (simp add: listedEmptyBefore_def)

lemma listedEmptyBefore_Suc:
  "k < length ticks \<Longrightarrow>
   listedEmptyBefore r ticks (Suc k) \<longleftrightarrow> listedEmptyBefore r ticks k \<or> storeCount r (ticks ! k) = Some 0"
  by (auto simp: listedEmptyBefore_def take_Suc_conv_app_nth)

lemma wait_tick:
  assumes "waitUntilMachineResourcesDeleted ticks = (res, tr)" and "k < length tr"
  shows "tr ! k = condition (ticks ! k) (preState tr k)" and "k < length ticks"
  using PollUntil_nth[OF assms(1)[unfolded waitUntilMachineResourcesDeleted_def] assms(2)]
    PollUntil_length[OF assms(1)[unfolded waitUntilMachineResourcesDeleted_def]] assms(2)
  by (simp_all add: preState_def)

lemma wait_earlier_continue:
  assumes "waitUntilMachineResourcesDeleted ticks = (res, tr)" and "k < length tr" and "j < k"
  shows "fst (tr ! j) = (False, None)"
proof (rule ccontr)
  assume "fst (tr ! j) \<noteq> (False, None)"
  from PollUntil_stops[OF assms(1)[unfolded waitUntilMachineResourcesDeleted_def] _ this] assms(2,3)
  show False by simp
qed

lemma wait_counters:
  assumes "waitUntilMachineResourcesDeleted ticks = (res, tr)" and "k < length tr"
  shows "countOf r (preState tr k) = 0 \<longleftrightarrow> listedEmptyBefore r ticks k"
  using assms(2)
proof (induction k)
  case 0
  then show ?case by (simp add: preState_def countOf_initial)
next
  case (Suc k)
  then have k: "k < length tr" by simp
  note t = wait_tick[OF assms(1) k]
  from wait_earlier_continue[OF assms(1) Suc.prems, of k] have "fst (tr ! k) = (False, None)" by simp
  then have n: "snd (fst (condition (ticks ! k) (preState tr k))) = None" by (simp add: t(1))
  from condition_observes[OF n, of r]
  have "countOf r (snd (tr ! k)) = 0 \<longleftrightarrow>
        countOf r (preState tr k) = 0 \<or> storeCount r (ticks ! k) = Some 0"
    by (auto simp: observes_def t(1))
  then show ?case using Suc.IH[OF k] by (simp add: preState_def listedEmptyBefore_Suc[OF t(2)])
qed

lemma wait_outcome:
  assumes "waitUntilMachineResourcesDeleted ticks = (res, tr)" and "k < length tr"
  shows "snd (fst (tr ! k)) = None \<longleftrightarrow>
           (\<forall>r. \<not> listedEmptyBefore r ticks k \<longrightarrow> listingPasses r (ticks ! k))"
    and "fst (tr ! k) = (True, None) \<longleftrightarrow> (\<forall>r. listedEmptyBefore r ticks (Suc k))"
    and "fst (tr ! k) = (False, None) \<longleftrightarrow> tickContinues ticks k"
proof -
  note t = wait_tick[OF assms]
  note c = wait_counters[OF assms]
  show 1: "snd (fst (tr ! k)) = None \<longleftrightarrow>
           (\<forall>r. \<not> listedEmptyBefore r ticks k \<longrightarrow> listingPasses r (ticks ! k))"
    by (simp add: t(1) condition_error_free c)
  show 2: "fst (tr ! k) = (True, None) \<longleftrightarrow> (\<forall>r. listedEmptyBefore r ticks (Suc k))"
    using c by (auto simp: t(1) condition_converges listedEmptyBefore_Suc[OF t(2)])
  have "fst (tr ! k) = (False, None) \<longleftrightarrow> snd (fst (tr ! k)) = None \<and> fst (tr ! k) \<noteq> (True, None)"
    by (cases "fst (tr ! k)") auto
  then show "fst (tr ! k) = (False, None) \<longleftrightarrow> tickContinues ticks k"
    unfolding 1 2 by (auto simp: tickContinues_def)
qed

lemma PollUntil_reach:
  "PollUntil cond ticks s = (res, tr) \<Longrightarrow> k < length ticks \<Longrightarrow>
   (\<forall>j<k. j < length tr \<longrightarrow> fst (tr ! j) = (False, None)) \<Longrightarrow> k < length tr"
proof (induction ticks arbitrary: s tr k)
  case Nil
  then show ?case by simp
next
  case (Cons e es)
  let ?r = "cond e s"
  show ?case
  proof (cases k)
    case 0
    then show ?thesis using Cons.prems(1) by (auto simp: Let_def split: if_splits prod.splits)
  next
    case (Suc k')
    have ne: "tr \<noteq> []" using Cons.prems(1) by (auto simp: Let_def split: if_splits prod.splits)
    have hd: "tr ! 0 = ?r" using Cons.prems(1) by (auto simp: Let_def split: if_splits prod.splits)
    from Cons.prems(3) Suc ne have "fst (tr ! 0) = (False, None)" by simp
    with hd have r: "fst ?r = (False, None)" by simp
    then obtain tr' where tr: "tr = ?r # tr'" and rec: "PollUntil cond es (snd ?r) = (res, tr')"
      using Cons.prems(1) by (auto simp: Let_def split: prod.splits)
    have "\<forall>j<k'. j < length tr' \<longrightarrow> fst (tr' ! j) = (False, None)"
      using Cons.prems(3) Suc tr by auto
    from Cons.IH[OF rec _ this] Cons.prems(2) Suc tr show ?thesis by simp
  qed
qed

lemma wait_reaches:
  assumes "waitUntilMachineResourcesDeleted ticks = (res, tr)" and "k < length ticks"
    and "\<forall>j<k. tickContinues ticks j"
  shows "k < length tr"
proof -
  have "\<forall>j<k. j < length tr \<longrightarrow> fst (tr ! j) = (False, None)"
    using assms(3) wait_outcome(3)[OF assms(1)] by blast
  from PollUntil_reach[OF assms(1)[unfolded waitUntilMachineResourcesDeleted_def] assms(2) this]
  show ?thesis .
qed

lemma checkOf_queried:
  "set (queried (snd (checkOf r env s))) \<subseteq> insert r (set (queried s))"
  "set (queried s) \<subseteq> set (queried (snd (checkOf r env s)))"
  "countOf r s \<noteq> 0 \<Longrightarrow> r \<in> set (queried (snd (checkOf r env s)))"
  "countOf r s = 0 \<Longrightarrow> queried (snd (checkOf r env s)) = queried s"
  by (cases r; auto simp: checkMachines_def checkMachineSets_def checkMachineDeployments_def
      checkMachineClasses_def checkMachineClassSecrets_def Let_def split: sum.splits option.splits)+

lemma runChecks_queried_upper:
  "set (queried (snd (runChecks env rs (e, s)))) \<subseteq> set rs \<union> set (queried s)"
proof (induction rs arbitrary: e s)
  case Nil
  show ?case by simp
next
  case (Cons r rs)
  show ?case
  proof (cases e)
    case None
    obtain e1 s1 where c: "checkOf r env s = (e1, s1)" by (cases "checkOf r env s")
    with checkOf_queried(1)[of r env s] have "set (queried s1) \<subseteq> insert r (set (queried s))" by simp
    with Cons.IH[of e1 s1] show ?thesis using None c by auto
  next
    case (Some a)
    then show ?thesis by auto
  qed
qed

lemma runChecks_queried_lower:
  "set (queried s) \<subseteq> set (queried (snd (runChecks env rs (e, s))))"
proof (induction rs arbitrary: e s)
  case Nil
  show ?case by simp
next
  case (Cons r rs)
  show ?case
  proof (cases e)
    case None
    obtain e1 s1 where c: "checkOf r env s = (e1, s1)" by (cases "checkOf r env s")
    with checkOf_queried(2)[of s r env] have "set (queried s) \<subseteq> set (queried s1)" by simp
    with Cons.IH[of s1 e1] show ?thesis using None c by auto
  next
    case (Some a)
    then show ?thesis by simp
  qed
qed

lemma checks_queried_iff:
  assumes "queried s = []"
  shows "r \<in> set (queried (snd (checks env s))) \<longleftrightarrow>
           countOf r s \<noteq> 0 \<and> (\<forall>q\<in>set (earlier r). countOf q s \<noteq> 0 \<longrightarrow> listingPasses q env)"
proof -
  have d: "distinct (earlier r)" and nr: "r \<notin> set (earlier r)" by (cases r; simp)+
  obtain x s1 where 1: "runChecks env (earlier r) (None, s) = (x, s1)"
    by (cases "runChecks env (earlier r) (None, s)")
  have q1: "set (queried s1) \<subseteq> set (earlier r)"
    using runChecks_queried_upper[of env "earlier r" None s] 1 assms by simp
  have c: "checks env s = runChecks env (later r) (andThen (x, s1) (checkOf r env))"
    unfolding checks_runChecks resources_split[of r] runChecks_append 1 by simp
  show ?thesis
  proof (cases x)
    case (Some e)
    then have "checks env s = (Some e, s1)" using c by simp
    then have notq: "r \<notin> set (queried (snd (checks env s)))" using q1 nr by auto
    have "\<not> (\<forall>q\<in>set (earlier r). countOf q s \<noteq> 0 \<longrightarrow> listingPasses q env)"
    proof
      assume "\<forall>q\<in>set (earlier r). countOf q s \<noteq> 0 \<longrightarrow> listingPasses q env"
      from runChecks_passes[OF d this] 1 Some show False by simp
    qed
    with notq show ?thesis by simp
  next
    case None
    with 1 have one: "runChecks env (earlier r) (None, s) = (None, s1)" by simp
    from runChecks_None[OF d one] nr
    have pass: "\<forall>q\<in>set (earlier r). countOf q s \<noteq> 0 \<longrightarrow> listingPasses q env"
      and same: "countOf r s1 = countOf r s" by simp_all
    have c': "checks env s = runChecks env (later r) (checkOf r env s1)" using c None by simp
    have nl: "r \<notin> set (later r)" by (cases r) simp_all
    show ?thesis
    proof (cases "countOf r s = 0")
      case True
      then have "queried (snd (checkOf r env s1)) = queried s1" using same checkOf_queried(4) by simp
      then have "set (queried (snd (checks env s))) \<subseteq> set (later r) \<union> set (queried s1)"
        unfolding c' using runChecks_queried_upper[of env "later r" "fst (checkOf r env s1)" "snd (checkOf r env s1)"] by simp
      then have "r \<notin> set (queried (snd (checks env s)))" using nl q1 nr by auto
      with True show ?thesis by simp
    next
      case False
      then have "r \<in> set (queried (snd (checkOf r env s1)))" using same checkOf_queried(3) by simp
      then have "r \<in> set (queried (snd (checks env s)))"
        unfolding c' using runChecks_queried_lower[of "snd (checkOf r env s1)" env "later r" "fst (checkOf r env s1)"] by auto
      with False pass show ?thesis by simp
    qed
  qed
qed

lemma condition_queried_iff:
  "r \<in> set (queried (snd (condition env s))) \<longleftrightarrow>
     countOf r s \<noteq> 0 \<and> (\<forall>q\<in>set (earlier r). countOf q s \<noteq> 0 \<longrightarrow> listingPasses q env)"
proof -
  let ?s = "s\<lparr>msg := [], queried := [], logged := None\<rparr>"
  have "queried (snd (condition env s)) = queried (snd (checks env ?s))"
    by (cases "checks env ?s") (auto simp: condition_def split: option.splits)
  then show ?thesis using checks_queried_iff[of ?s r env] by simp
qed

lemma wait_queried_iff:
  assumes "waitUntilMachineResourcesDeleted ticks = (res, tr)" and "k < length tr"
  shows "r \<in> set (queried (snd (tr ! k))) \<longleftrightarrow> performed r ticks k"
  by (simp add: wait_tick(1)[OF assms] condition_queried_iff wait_counters[OF assms] performed_def)

section \<open>The claims\<close>

text \<open>
  C1. For every set of Machines in the worker's namespace the marking step runs one
  labelling task per machine; when labelling fails for some of them, \<^verbatim>\<open>Delete\<close> is to
  return one aggregate error that refers to every failed machine, the machines that were
  labelled keep their labels, and the cascade deletion is not reached.

  Evaluated on the store that lists two unmarked machines and rejects both updates: when
  the two goroutines both read \<^verbatim>\<open>errorList\<close> before either writes it, the aggregate error
  holds the failure of machine-b only and the failure of machine-a is lost; when the
  goroutines run one after the other it holds both. In the racing run \<^verbatim>\<open>Delete\<close> returns
  the wrapped aggregate error and stops after the marking stage.

  The rest of the claim holds under every schedule of the model, in which the read and
  the write of \<^verbatim>\<open>errorList\<close> are atomic steps (a run in which a goroutine reads a torn
  slice header and the program panics is not among them): \<open>markAll_every_schedule\<close> (an
  aggregate error is returned exactly when some labelling fails, and it holds errors of
  failed machines only), \<open>markAll_keeps_labels\<close> (no rollback) and
  \<open>Delete_stops_at_marking\<close> (no cascade deletion). \<open>markAll_in_order\<close> has the
  aggregate error list every failure when the goroutines run one after the other.
\<close>

theorem racing_appends_lose_a_labelling_error:
  "ListMachines refusingStore = Inr [machineA, machineB] \<and>
   labellingError (updateError refusingStore) machineA =
     Some (ClientError ''update of machine-a refused'') \<and>
   labellingError (updateError refusingStore) machineB =
     Some (ClientError ''update of machine-b refused'') \<and>
   fst (markAllMachinesForcefulDeletion [0, 1, 0, 1, 0, 1] refusingStore) =
     Some (LabellingFailed [ClientError ''update of machine-b refused'']) \<and>
   fst (markAllMachinesForcefulDeletion [0, 0, 0, 1, 1, 1] refusingStore) =
     Some (LabellingFailed [ClientError ''update of machine-a refused'',
                            ClientError ''update of machine-b refused'']) \<and>
   map_option errorString (fst (Delete racingRun refusingStore)) =
     Some ''marking all machines for forceful deletion failed: labelling machines (to become forcefully deleted) failed: [update of machine-b refused]'' \<and>
   fst (snd (Delete racingRun refusingStore)) =
     [InstantiateDelegate, GetDeployment, ScaleDeployment, ApplyShootChart, MarkAllMachines]"
  by (simp add: fan_defs example_defs Delete_def Wrapf_def labellingError_def
      hasForceDeletionLabel_def withForceDeletionLabel_def)



text \<open>
  C3. The counts are the five counters of the closure, each the last count the wait has
  observed for its resource type: after a tick that returns no error the counter of a
  type is zero exactly when the snapshot of this tick or of an earlier one holds no
  object of the type (for the secrets, none that carries a finalizer). A type that was
  listed empty is not listed again, so the five counters are zero together once every
  type has been listed empty by some tick.

  The wait returns \<^verbatim>\<open>nil\<close> at the first tick that leaves all five counters at zero, and
  only then. In terms of the store: when the ticks before tick \<open>k\<close> all continue and by
  tick \<open>k\<close> every type has been listed empty, the wait returns \<^verbatim>\<open>nil\<close> at tick \<open>k\<close>; and
  when the wait returns \<^verbatim>\<open>nil\<close>, every type has been listed empty by its last tick and
  every tick before the last has continued. In particular a tick that finds all five
  collections empty ends the wait with \<^verbatim>\<open>nil\<close>.

  When no tick before the deadline fails or leaves all counters at zero, which is the case
  when every tick continues (no list call that it makes fails, no machine deployment
  that it lists reports a failed machine, and some type has still not been listed empty),
  the wait has run every tick and returns \<^verbatim>\<open>ErrWaitTimeout\<close>, which differs from the
  error of a failed machine as a value, in its text, and in the message of the error that
  \<^verbatim>\<open>Delete\<close> makes of it.
\<close>

theorem wait_succeeds_or_times_out:
  assumes "waitUntilMachineResourcesDeleted ticks = (res, tr)"
  shows "(\<forall>k<length tr. allZero (snd (tr ! k)) \<longrightarrow> res = None \<and> length tr = Suc k) \<and>
         (\<forall>k<length tr. (\<forall>r. storeCount r (ticks ! k) = Some 0) \<longrightarrow>
            res = None \<and> length tr = Suc k) \<and>
         (res = None \<longrightarrow> tr \<noteq> [] \<and> allZero (snd (last tr))) \<and>
         ((\<forall>k<length tr. snd (fst (tr ! k)) = None \<and> \<not> allZero (snd (tr ! k))) \<longrightarrow>
            res = Some ErrWaitTimeout \<and> length tr = length ticks) \<and>
         (\<forall>name description.
            ErrWaitTimeout \<noteq> MachineFailed name description \<and>
            errorString ErrWaitTimeout \<noteq> errorString (MachineFailed name description) \<and>
            waitFailureMessage ErrWaitTimeout \<noteq> waitFailureMessage (MachineFailed name description)) \<and>
         (\<forall>k<length tr. snd (fst (tr ! k)) = None \<longrightarrow>
            (\<forall>r. countOf r (snd (tr ! k)) = 0 \<longleftrightarrow> listedEmptyBefore r ticks (Suc k))) \<and>
         (\<forall>k<length ticks.
            (\<forall>j<k. tickContinues ticks j) \<and> (\<forall>r. listedEmptyBefore r ticks (Suc k)) \<longrightarrow>
              res = None \<and> length tr = Suc k) \<and>
         (res = None \<longrightarrow>
            (\<forall>r. listedEmptyBefore r ticks (length tr)) \<and>
            (\<forall>j<length tr - 1. tickContinues ticks j)) \<and>
         ((\<forall>k<length ticks. tickContinues ticks k) \<longrightarrow>
            res = Some ErrWaitTimeout \<and> length tr = length ticks)"
proof -
  note run = assms[unfolded waitUntilMachineResourcesDeleted_def]
  have outcome: "fst (tr ! k) = (True, None) \<longleftrightarrow> allZero (snd (tr ! k))" if "k < length tr" for k
    using wait_nth[OF assms that] condition_outcome by auto
  have a: "res = None \<and> length tr = Suc k" if k: "k < length tr" and z: "allZero (snd (tr ! k))" for k
  proof -
    from outcome[OF k] z have o: "fst (tr ! k) = (True, None)" by simp
    then have "fst (tr ! k) \<noteq> (False, None)" by simp
    from PollUntil_stops[OF run k this] o show ?thesis by simp
  qed
  have a': "res = None \<and> length tr = Suc k"
    if k: "k < length tr" and e: "\<forall>r. storeCount r (ticks ! k) = Some 0" for k
  proof -
    from wait_nth[OF assms k] obtain s where "tr ! k = condition (ticks ! k) s" ..
    with condition_all_empty[OF e, of s] have "fst (tr ! k) = (True, None)" by simp
    with outcome[OF k] have "allZero (snd (tr ! k))" by simp
    from a[OF k this] show ?thesis .
  qed
  have b: "tr \<noteq> [] \<and> allZero (snd (last tr))" if "res = None"
  proof -
    from PollUntil_success[of condition ticks initialWaitState tr] run that
    have ne: "tr \<noteq> []" and l: "fst (last tr) = (True, None)" by simp_all
    from ne have "last tr = tr ! (length tr - 1)" by (simp add: last_conv_nth)
    with l ne outcome[of "length tr - 1"] show ?thesis by simp
  qed
  have c: "res = Some ErrWaitTimeout \<and> length tr = length ticks"
    if h: "\<forall>k<length tr. snd (fst (tr ! k)) = None \<and> \<not> allZero (snd (tr ! k))"
  proof -
    have "\<forall>k<length tr. fst (tr ! k) = (False, None)"
    proof (intro allI impI)
      fix k assume k: "k < length tr"
      with h have n: "snd (fst (tr ! k)) = None" and z: "\<not> allZero (snd (tr ! k))" by simp_all
      from z outcome[OF k] have "fst (tr ! k) \<noteq> (True, None)" by simp
      with n show "fst (tr ! k) = (False, None)" by (cases "fst (tr ! k)") auto
    qed
    from PollUntil_continues[OF run this] show ?thesis .
  qed
  have d: "ErrWaitTimeout \<noteq> MachineFailed name description \<and>
           errorString ErrWaitTimeout \<noteq> errorString (MachineFailed name description) \<and>
           waitFailureMessage ErrWaitTimeout \<noteq> waitFailureMessage (MachineFailed name description)"
    for name description by (simp add: waitFailureMessage_def)
  have t1: "countOf r (snd (tr ! k)) = 0 \<longleftrightarrow> listedEmptyBefore r ticks (Suc k)"
    if k: "k < length tr" and n: "snd (fst (tr ! k)) = None" for k r
  proof -
    note t = wait_tick[OF assms k]
    from n have "snd (fst (condition (ticks ! k) (preState tr k))) = None" by (simp add: t(1))
    from condition_observes[OF this, of r]
    have "countOf r (snd (tr ! k)) = 0 \<longleftrightarrow>
          countOf r (preState tr k) = 0 \<or> storeCount r (ticks ! k) = Some 0"
      by (auto simp: observes_def t(1))
    then show ?thesis by (simp add: wait_counters[OF assms k] listedEmptyBefore_Suc[OF t(2)])
  qed
  have t2: "res = None \<and> length tr = Suc k"
    if k: "k < length ticks" and cont: "\<forall>j<k. tickContinues ticks j"
      and e: "\<forall>r. listedEmptyBefore r ticks (Suc k)" for k
  proof -
    from wait_reaches[OF assms k cont] have k': "k < length tr" .
    from wait_outcome(2)[OF assms k'] e have "fst (tr ! k) = (True, None)" by simp
    with outcome[OF k'] have "allZero (snd (tr ! k))" by simp
    from a[OF k' this] show ?thesis .
  qed
  have t3: "(\<forall>r. listedEmptyBefore r ticks (length tr)) \<and> (\<forall>j<length tr - 1. tickContinues ticks j)"
    if "res = None"
  proof -
    from PollUntil_success[of condition ticks initialWaitState tr] run that
    have ne: "tr \<noteq> []" and l: "fst (last tr) = (True, None)" by simp_all
    from ne have last: "last tr = tr ! (length tr - 1)" and k: "length tr - 1 < length tr"
      by (simp_all add: last_conv_nth)
    from wait_outcome(2)[OF assms k] l last ne
    have "\<forall>r. listedEmptyBefore r ticks (length tr)" by simp
    moreover have "tickContinues ticks j" if "j < length tr - 1" for j
    proof -
      from that have j: "j < length tr" by simp
      from wait_earlier_continue[OF assms k that] wait_outcome(3)[OF assms j] show ?thesis by simp
    qed
    ultimately show ?thesis by blast
  qed
  have t4: "res = Some ErrWaitTimeout \<and> length tr = length ticks"
    if cont: "\<forall>k<length ticks. tickContinues ticks k"
  proof -
    have "\<forall>k<length tr. fst (tr ! k) = (False, None)"
    proof (intro allI impI)
      fix k assume k: "k < length tr"
      with wait_tick(2)[OF assms k] cont have "tickContinues ticks k" by simp
      with wait_outcome(3)[OF assms k] show "fst (tr ! k) = (False, None)" by simp
    qed
    from PollUntil_continues[OF run this] show ?thesis .
  qed
  show ?thesis
  proof (intro conjI allI impI)
    fix k assume "k < length tr" "allZero (snd (tr ! k))"
    then show "res = None" "length tr = Suc k" using a by blast+
  next
    fix k assume "k < length tr" "\<forall>r. storeCount r (ticks ! k) = Some 0"
    then show "res = None" "length tr = Suc k" using a' by blast+
  next
    assume "res = None"
    then show "tr \<noteq> []" "allZero (snd (last tr))" using b by blast+
  next
    assume "\<forall>k<length tr. snd (fst (tr ! k)) = None \<and> \<not> allZero (snd (tr ! k))"
    then show "res = Some ErrWaitTimeout" "length tr = length ticks" using c by blast+
  next
    fix name description
    show "ErrWaitTimeout \<noteq> MachineFailed name description"
      "errorString ErrWaitTimeout \<noteq> errorString (MachineFailed name description)"
      "waitFailureMessage ErrWaitTimeout \<noteq> waitFailureMessage (MachineFailed name description)"
      using d by blast+
  next
    fix k r assume "k < length tr" "snd (fst (tr ! k)) = None"
    then show "countOf r (snd (tr ! k)) = 0 \<longleftrightarrow> listedEmptyBefore r ticks (Suc k)" using t1 by blast
  next
    fix k assume "k < length ticks"
      "(\<forall>j<k. tickContinues ticks j) \<and> (\<forall>r. listedEmptyBefore r ticks (Suc k))"
    then show "res = None" "length tr = Suc k" using t2 by blast+
  next
    fix r assume "res = None"
    then show "listedEmptyBefore r ticks (length tr)" using t3 by blast
  next
    fix j assume "res = None" "j < length tr - 1"
    then show "tickContinues ticks j" using t3 by blast
  next
    assume "\<forall>k<length ticks. tickContinues ticks k"
    then show "res = Some ErrWaitTimeout" "length tr = length ticks" using t4 by blast+
  qed
qed

theorem wait_succeeds_or_times_out_witness:
  "tickContinues [tickSetsLeft, tickMachineBack, tickAllGone] 0 \<and>
   tickContinues [tickSetsLeft, tickMachineBack, tickAllGone] 1 \<and>
   (\<forall>r. listedEmptyBefore r [tickSetsLeft, tickMachineBack, tickAllGone] 3) \<and>
   \<not> listedEmptyBefore MachineSets [tickSetsLeft, tickMachineBack, tickAllGone] 2 \<and>
   fst (waitUntilMachineResourcesDeleted [tickSetsLeft, tickMachineBack, tickAllGone]) = None \<and>
   length (snd (waitUntilMachineResourcesDeleted [tickSetsLeft, tickMachineBack, tickAllGone])) = 3 \<and>
   allZero (snd (last (snd (waitUntilMachineResourcesDeleted [tickSetsLeft, tickMachineBack, tickAllGone])))) \<and>
   (\<forall>r. countOf r (snd (snd (waitUntilMachineResourcesDeleted
          [tickSetsLeft, tickMachineBack, tickAllGone]) ! 2)) = 0) \<and>
   (\<forall>r. storeCount r tickAllGone = Some 0) \<and>
   tickContinues [tickSetsLeft, tickMachineBack] 0 \<and>
   tickContinues [tickSetsLeft, tickMachineBack] 1 \<and>
   fst (waitUntilMachineResourcesDeleted [tickSetsLeft, tickMachineBack]) = Some ErrWaitTimeout \<and>
   length (snd (waitUntilMachineResourcesDeleted [tickSetsLeft, tickMachineBack])) = 2 \<and>
   waitFailureMessage ErrWaitTimeout \<noteq>
     waitFailureMessage (MachineFailed ''machine-a'' ''quota exceeded'')"
proof -
  let ?ticks1 = "[tickSetsLeft, tickMachineBack, tickAllGone]"
  let ?ticks2 = "[tickSetsLeft, tickMachineBack]"
  let ?run1 = "waitUntilMachineResourcesDeleted ?ticks1"
  let ?run2 = "waitUntilMachineResourcesDeleted ?ticks2"
  have sets: "storeCount MachineSets tickSetsLeft \<noteq> Some 0"
    "storeCount MachineSets tickMachineBack \<noteq> Some 0"
    by (simp_all add: tickSetsLeft_def tickMachineBack_def)
  have pass: "listingPasses r tickSetsLeft" "listingPasses r tickMachineBack" for r
    by (cases r; simp add: listingPasses_def failedMachinesListed_def tickSetsLeft_def
        tickMachineBack_def)+
  have open1: "\<not> listedEmptyBefore MachineSets ?ticks1 2"
    using sets by (simp add: listedEmptyBefore_def numeral_2_eq_2)
  have open2: "\<not> listedEmptyBefore MachineSets ?ticks2 2"
    using sets by (simp add: listedEmptyBefore_def numeral_2_eq_2)
  have open1': "\<not> listedEmptyBefore MachineSets ?ticks1 1"
    using sets by (simp add: listedEmptyBefore_def)
  have open2': "\<not> listedEmptyBefore MachineSets ?ticks2 1"
    using sets by (simp add: listedEmptyBefore_def)
  have c10: "tickContinues ?ticks1 0" and c11: "tickContinues ?ticks1 1"
    and c20: "tickContinues ?ticks2 0" and c21: "tickContinues ?ticks2 1"
    unfolding tickContinues_def using pass open1 open2 open1' open2'
    by (auto simp: numeral_2_eq_2)
  have 4: "\<forall>r. storeCount r tickAllGone = Some 0"
  proof
    fix r show "storeCount r tickAllGone = Some 0" by (cases r) (simp_all add: tickAllGone_def)
  qed
  then have e: "\<forall>r. listedEmptyBefore r ?ticks1 3"
    by (simp add: listedEmptyBefore_def numeral_3_eq_3)
  have 1: "2 < length (snd ?run1)" by (simp add: run1_length)
  have 2: "allZero (snd (snd ?run1 ! 2))" by (simp add: tick_defs example_defs)
  have 3: "\<forall>k<length (snd ?run2). snd (fst (snd ?run2 ! k)) = None \<and> \<not> allZero (snd (snd ?run2 ! k))"
  proof (intro allI impI)
    fix k assume "k < length (snd ?run2)"
    then have "k = 0 \<or> k = 1" by (auto simp: run2_length)
    then show "snd (fst (snd ?run2 ! k)) = None \<and> \<not> allZero (snd (snd ?run2 ! k))"
      by (auto simp: tick_defs example_defs)
  qed
  have c1: "\<forall>j<2. tickContinues ?ticks1 j"
  proof (intro allI impI)
    fix j :: nat assume "j < 2"
    then have "j = 0 \<or> j = 1" by auto
    with c10 c11 show "tickContinues ?ticks1 j" by auto
  qed
  have c2: "\<forall>k<length ?ticks2. tickContinues ?ticks2 k"
  proof (intro allI impI)
    fix k assume "k < length ?ticks2"
    then have "k = 0 \<or> k = 1" by auto
    with c20 c21 show "tickContinues ?ticks2 k" by auto
  qed
  note t1 = wait_succeeds_or_times_out[OF surjective_pairing, of ?ticks1]
  note t2 = wait_succeeds_or_times_out[OF surjective_pairing, of ?ticks2]
  from t1[THEN conjunct1, rule_format, OF 1 2]
  have ok: "fst ?run1 = None" "length (snd ?run1) = 3" by simp_all
  from t1[THEN conjunct2, THEN conjunct2, THEN conjunct1, rule_format, OF ok(1)]
  have z: "allZero (snd (last (snd ?run1)))" by simp
  from t2[THEN conjunct2, THEN conjunct2, THEN conjunct2, THEN conjunct1, THEN mp, OF 3]
  have timeout: "fst ?run2 = Some ErrWaitTimeout" "length (snd ?run2) = 2" by simp_all
  from t2[THEN conjunct2, THEN conjunct2, THEN conjunct2, THEN conjunct2, THEN conjunct1, rule_format,
      of "''machine-a''" "''quota exceeded''"]
  have differ: "waitFailureMessage ErrWaitTimeout \<noteq>
     waitFailureMessage (MachineFailed ''machine-a'' ''quota exceeded'')" by blast
  note rest1 = t1[THEN conjunct2, THEN conjunct2, THEN conjunct2, THEN conjunct2, THEN conjunct2]
  note rest2 = t2[THEN conjunct2, THEN conjunct2, THEN conjunct2, THEN conjunct2, THEN conjunct2]
  have n: "snd (fst (snd ?run1 ! 2)) = None" by (simp add: tick_defs example_defs)
  from rest1[THEN conjunct1, THEN spec, of 2, THEN mp, OF 1, THEN mp, OF n] e
  have counters: "\<forall>r. countOf r (snd (snd ?run1 ! 2)) = 0" by (simp add: numeral_3_eq_3)
  have "(2::nat) < length ?ticks1" by simp
  from rest1[THEN conjunct2, THEN conjunct1, THEN spec, of 2, THEN mp, OF this, THEN mp] c1 e
  have ok': "fst ?run1 = None" "length (snd ?run1) = 3" by (simp_all add: numeral_3_eq_3)
  from rest1[THEN conjunct2, THEN conjunct2, THEN conjunct1, THEN mp, OF ok'(1)]
  have e': "\<forall>r. listedEmptyBefore r ?ticks1 3" by (simp add: ok'(2))
  from rest2[THEN conjunct2, THEN conjunct2, THEN conjunct2, THEN mp, OF c2]
  have timeout': "fst ?run2 = Some ErrWaitTimeout" "length (snd ?run2) = 2" by simp_all
  show ?thesis
    apply (intro conjI)
    using c10 c11 e' open1 ok' z counters 4 c20 c21 timeout' differ by blast+
qed

text \<open>
  C4. Within one wait, once the counter of a resource type is zero after some tick, no
  later tick queries that type, and its counter stays zero.
\<close>

theorem zero_count_is_never_queried_again:
  assumes "waitUntilMachineResourcesDeleted ticks = (res, tr)"
    and "i < j" and "j < length tr"
    and "countOf r (snd (tr ! i)) = 0"
  shows "r \<notin> set (queried (snd (tr ! j))) \<and> countOf r (snd (tr ! j)) = 0"
  using PollUntil_once_zero[OF assms(1)[unfolded waitUntilMachineResourcesDeleted_def] assms(2-4)]
  by (simp add: untouched_def)

theorem zero_count_is_never_queried_again_witness:
  "countOf Machines (snd (snd (waitUntilMachineResourcesDeleted [tickSetsLeft, tickMachineBack, tickAllGone]) ! 0)) = 0 \<and>
   listedMachines tickMachineBack = Inr [machineA] \<and>
   Machines \<notin> set (queried (snd (snd (waitUntilMachineResourcesDeleted [tickSetsLeft, tickMachineBack, tickAllGone]) ! 1))) \<and>
   countOf Machines (snd (snd (waitUntilMachineResourcesDeleted [tickSetsLeft, tickMachineBack, tickAllGone]) ! 1)) = 0"
proof -
  let ?run = "waitUntilMachineResourcesDeleted [tickSetsLeft, tickMachineBack, tickAllGone]"
  have 0: "countOf Machines (snd (snd ?run ! 0)) = 0"
    by (simp add: tick_defs example_defs)
  have 1: "(1::nat) < length (snd ?run)" by (simp add: run1_length)
  have 2: "listedMachines tickMachineBack = Inr [machineA]" by (simp add: tickMachineBack_def)
  from zero_count_is_never_queried_again[OF surjective_pairing _ 1 0] 0 2
  show ?thesis by simp
qed

text \<open>
  C5. Marking is idempotent: for a machine that carries the force-deletion label,
  \<^verbatim>\<open>markMachineForcefulDeletion\<close> returns no error, leaves the machine and the store as
  they are and issues no update; for a machine without the label it sets the label,
  issues exactly one update call, for the labelled machine, and returns what the store
  answers.
\<close>

theorem markMachineForcefulDeletion_idempotent:
  "(hasForceDeletionLabel machine \<longrightarrow>
      markMachineForcefulDeletion c machine = (None, machine, c)) \<and>
   (\<not> hasForceDeletionLabel machine \<longrightarrow>
      (\<exists>machine' c'.
         markMachineForcefulDeletion c machine = (updateError c machine', machine', c') \<and>
         hasForceDeletionLabel machine' \<and>
         machineName machine' = machineName machine \<and>
         updateCalls c' = updateCalls c @ [machine']))"
  by (auto simp: hasForceDeletionLabel_def markMachineForcefulDeletion_def Update_def Let_def
      split: option.splits)

theorem markMachineForcefulDeletion_idempotent_witness:
  "hasForceDeletionLabel markedMachine \<and>
   markMachineForcefulDeletion refusingStore markedMachine = (None, markedMachine, refusingStore) \<and>
   \<not> hasForceDeletionLabel machineA \<and>
   (\<exists>machine' c'.
      markMachineForcefulDeletion refusingStore machineA =
        (updateError refusingStore machine', machine', c') \<and>
      hasForceDeletionLabel machine' \<and>
      machineName machine' = machineName machineA \<and>
      updateCalls c' = updateCalls refusingStore @ [machine'])"
proof -
  have 1: "hasForceDeletionLabel markedMachine"
    by (simp add: hasForceDeletionLabel_def markedMachine_def)
  have 2: "\<not> hasForceDeletionLabel machineA"
    by (simp add: hasForceDeletionLabel_def machineA_def)
  from 1 2 markMachineForcefulDeletion_idempotent[of markedMachine refusingStore]
    markMachineForcefulDeletion_idempotent[of machineA refusingStore]
  show ?thesis by blast
qed

text \<open>
  C6. \<^verbatim>\<open>Mutate\<close> returns no error, leaves the object as it is and calls no method of the
  \<^verbatim>\<open>Ensurer\<close> for an object of a kind outside the dispatcher's set, for a Service,
  Deployment or StatefulSet whose name is none of the well-known names of its kind, and
  for an OperatingSystemConfig whose purpose is not the reconcile purpose.
\<close>

theorem Mutate_ignores_unmatched_objects:
  assumes "(\<exists>other. obj = OtherObj other) \<or>
     (\<exists>x. obj = ServiceObj x \<and> serviceName x \<noteq> KubeAPIServerDeploymentName k) \<or>
     (\<exists>x. obj = DeploymentObj x \<and> deploymentName x \<noteq> KubeAPIServerDeploymentName k \<and>
        deploymentName x \<noteq> KubeControllerManagerDeploymentName k \<and>
        deploymentName x \<noteq> KubeSchedulerDeploymentName k) \<or>
     (\<exists>x. obj = StatefulSetObj x \<and> statefulSetName x \<noteq> EtcdMainStatefulSetName k \<and>
        statefulSetName x \<noteq> EtcdEventsStatefulSetName k) \<or>
     (\<exists>x. obj = OperatingSystemConfigObj x \<and>
        oscPurpose x \<noteq> OperatingSystemConfigPurposeReconcile k)"
  shows "Mutate k m obj = (None, obj, [])"
  using assms by (auto simp: Mutate_def)

theorem Mutate_ignores_unmatched_objects_witness:
  "Mutate exampleConstants exampleMutator (OtherObj ''ConfigMap'') = (None, OtherObj ''ConfigMap'', []) \<and>
   Mutate exampleConstants exampleMutator
     (DeploymentObj \<lparr>deploymentName = ''coredns'', deploymentNamespace = ''shoot--foo--bar'', deploymentRest = []\<rparr>) =
     (None, DeploymentObj \<lparr>deploymentName = ''coredns'', deploymentNamespace = ''shoot--foo--bar'', deploymentRest = []\<rparr>, []) \<and>
   Mutate exampleConstants exampleMutator (OperatingSystemConfigObj (exampleConfig\<lparr>oscPurpose := ''provision''\<rparr>)) =
     (None, OperatingSystemConfigObj (exampleConfig\<lparr>oscPurpose := ''provision''\<rparr>), [])"
proof -
  let ?d = "\<lparr>deploymentName = ''coredns'', deploymentNamespace = ''shoot--foo--bar'', deploymentRest = []\<rparr>"
  have 1: "deploymentName ?d \<noteq> KubeAPIServerDeploymentName exampleConstants \<and>
        deploymentName ?d \<noteq> KubeControllerManagerDeploymentName exampleConstants \<and>
        deploymentName ?d \<noteq> KubeSchedulerDeploymentName exampleConstants"
    by (simp add: exampleConstants_def)
  have 2: "oscPurpose (exampleConfig\<lparr>oscPurpose := ''provision''\<rparr>) \<noteq>
        OperatingSystemConfigPurposeReconcile exampleConstants"
    by (simp add: exampleConstants_def)
  from Mutate_ignores_unmatched_objects[of "OtherObj ''ConfigMap''" exampleConstants exampleMutator]
    Mutate_ignores_unmatched_objects[of "DeploymentObj ?d" exampleConstants exampleMutator]
    Mutate_ignores_unmatched_objects[of "OperatingSystemConfigObj (exampleConfig\<lparr>oscPurpose := ''provision''\<rparr>)"
      exampleConstants exampleMutator] 1 2
  show ?thesis by blast
qed

text \<open>
  C7, as the claim states it: after the mutation the file list holds exactly one entry at
  the cloud provider config path. It fails on a config that already holds two files at
  that path: the \<^verbatim>\<open>Ensurer\<close> asks for the cloud provider config, its hook writes
  \<^verbatim>\<open>CONFIG\<close>, the mutation returns no error, and two entries are left at the path.
\<close>

theorem duplicate_entries_remain_counterexample:
  "ShouldProvisionKubeletCloudProviderConfig (ensurer exampleMutator) \<and>
   EnsureKubeletCloudProviderConfig (ensurer exampleMutator) [] (oscNamespace duplicateConfig) =
     (None, ''CONFIG'') \<and>
   fst (mutateOperatingSystemConfig exampleConstants exampleMutator duplicateConfig) = None \<and>
   length (filter (\<lambda>f. filePath f = ''/var/lib/kubelet/cloudprovider.conf'')
     (oscFiles (fst (snd (mutateOperatingSystemConfig exampleConstants exampleMutator duplicateConfig))))) = 2"
  by (simp add: mutator_defs duplicateConfig_def)

text \<open>
  C7, amended. When the \<^verbatim>\<open>Ensurer\<close> asks for the cloud provider config, its hook writes
  the text \<open>T\<close> and the codec encodes \<open>T\<close> under the fixed identifier as \<open>fci\<close>, a
  mutation that returns no error puts the file with the permissions 0644 (420) and the
  inline content \<open>fci\<close> in the place of the first file at the cloud provider config path,
  or appends it when there is none, and keeps every further file at that path. So a
  config with at most one file at the path is left with exactly one, the new one. A
  second mutation that returns no error leaves the files at the path as they are, and
  the file list keeps its length.
\<close>

theorem cloud_provider_config_is_upserted:
  assumes "mutateOperatingSystemConfig k m osc = (None, osc', calls)"
    and "ShouldProvisionKubeletCloudProviderConfig (ensurer m)"
    and "EnsureKubeletCloudProviderConfig (ensurer m) [] (oscNamespace osc) = (None, T)"
    and "fciEncode (fciCodec m) T (B64FileCodecID k) = Inr fci"
  shows "filter (\<lambda>f. filePath f = cloudProviderConfigPath) (oscFiles osc') =
           \<lparr>filePath = ''/var/lib/kubelet/cloudprovider.conf'',
            filePermissions = Some 420,
            fileContent = \<lparr>contentSecretRef = None, contentInline = Some fci\<rparr>\<rparr> #
           tl (filter (\<lambda>f. filePath f = cloudProviderConfigPath) (oscFiles osc)) \<and>
         length (oscFiles osc') =
           (if filter (\<lambda>f. filePath f = cloudProviderConfigPath) (oscFiles osc) = []
            then Suc (length (oscFiles osc)) else length (oscFiles osc)) \<and>
         (length (filter (\<lambda>f. filePath f = cloudProviderConfigPath) (oscFiles osc)) \<le> 1 \<longrightarrow>
            filter (\<lambda>f. filePath f = cloudProviderConfigPath) (oscFiles osc') =
              [\<lparr>filePath = ''/var/lib/kubelet/cloudprovider.conf'',
                filePermissions = Some 420,
                fileContent = \<lparr>contentSecretRef = None, contentInline = Some fci\<rparr>\<rparr>]) \<and>
         (\<forall>osc'' calls'.
            mutateOperatingSystemConfig k m osc' = (None, osc'', calls') \<longrightarrow>
              filter (\<lambda>f. filePath f = cloudProviderConfigPath) (oscFiles osc'') =
                filter (\<lambda>f. filePath f = cloudProviderConfigPath) (oscFiles osc') \<and>
              length (oscFiles osc'') = length (oscFiles osc'))"
proof -
  let ?cp = "\<lambda>f. filePath f = cloudProviderConfigPath"
  let ?file = "\<lparr>filePath = ''/var/lib/kubelet/cloudprovider.conf'', filePermissions = Some 420,
             fileContent = \<lparr>contentSecretRef = None, contentInline = Some fci\<rparr>\<rparr>"
  have cpfile: "cloudProviderConfigFile fci = ?file"
    by (simp add: cloudProviderConfigFile_def cloudProviderConfigPath_def)
  from mutateOperatingSystemConfig_cloud(1)[OF assms(1-4)]
  have first: "filter ?cp (oscFiles osc') = ?file # tl (filter ?cp (oscFiles osc))"
    by (simp add: cpfile)
  from mutateOperatingSystemConfig_cloud(2)[OF assms(1-4)]
  have len: "length (oscFiles osc') =
           (if filter ?cp (oscFiles osc) = [] then Suc (length (oscFiles osc))
            else length (oscFiles osc))"
    by (simp add: filter_empty_conv)
  have one: "filter ?cp (oscFiles osc') = [?file]"
    if "length (filter ?cp (oscFiles osc)) \<le> 1"
  proof -
    from that have "tl (filter ?cp (oscFiles osc)) = []"
      by (cases "filter ?cp (oscFiles osc)") auto
    with first show ?thesis by simp
  qed
  have ns: "oscNamespace osc' = oscNamespace osc"
    by (rule mutateOperatingSystemConfig_cloud(3)[OF assms(1-4)])
  have again: "filter ?cp (oscFiles osc'') = filter ?cp (oscFiles osc') \<and>
               length (oscFiles osc'') = length (oscFiles osc')"
    if run: "mutateOperatingSystemConfig k m osc' = (None, osc'', calls')" for osc'' calls'
  proof -
    have hook: "EnsureKubeletCloudProviderConfig (ensurer m) [] (oscNamespace osc') = (None, T)"
      using assms(3) ns by simp
    have ne: "filter ?cp (oscFiles osc') \<noteq> []" by (simp add: first)
    then have ex: "\<exists>f\<in>set (oscFiles osc'). filePath f = cloudProviderConfigPath"
      by (simp add: filter_empty_conv)
    from mutateOperatingSystemConfig_cloud(1)[OF run assms(2) hook assms(4)]
      mutateOperatingSystemConfig_cloud(2)[OF run assms(2) hook assms(4)] ex
    show ?thesis by (simp add: first cpfile)
  qed
  show ?thesis
  proof (intro conjI allI impI)
    show "filter ?cp (oscFiles osc') = ?file # tl (filter ?cp (oscFiles osc))" by (rule first)
    show "length (oscFiles osc') =
           (if filter ?cp (oscFiles osc) = [] then Suc (length (oscFiles osc))
            else length (oscFiles osc))" by (rule len)
  next
    assume "length (filter ?cp (oscFiles osc)) \<le> 1"
    then show "filter ?cp (oscFiles osc') = [?file]" by (rule one)
  next
    fix osc'' calls' assume "mutateOperatingSystemConfig k m osc' = (None, osc'', calls')"
    from again[OF this]
    show "filter ?cp (oscFiles osc'') = filter ?cp (oscFiles osc')"
      "length (oscFiles osc'') = length (oscFiles osc')" by simp_all
  qed
qed

theorem cloud_provider_config_is_upserted_witness:
  "fst (mutateOperatingSystemConfig exampleConstants exampleMutator exampleConfig) = None \<and>
   filter (\<lambda>f. filePath f = cloudProviderConfigPath)
     (oscFiles (fst (snd (mutateOperatingSystemConfig exampleConstants exampleMutator exampleConfig)))) =
     [\<lparr>filePath = ''/var/lib/kubelet/cloudprovider.conf'',
       filePermissions = Some 420,
       fileContent = \<lparr>contentSecretRef = None,
                      contentInline = Some \<lparr>inlineEncoding = ''b64'', inlineData = ''CONFIG''\<rparr>\<rparr>\<rparr>] \<and>
   length (oscFiles (fst (snd (mutateOperatingSystemConfig exampleConstants exampleMutator exampleConfig)))) = 2 \<and>
   length (oscFiles (fst (snd (mutateOperatingSystemConfig exampleConstants exampleMutator
      (fst (snd (mutateOperatingSystemConfig exampleConstants exampleMutator exampleConfig))))))) = 2 \<and>
   filter (\<lambda>f. filePath f = cloudProviderConfigPath)
     (oscFiles (fst (snd (mutateOperatingSystemConfig exampleConstants exampleMutator duplicateConfig)))) =
     [\<lparr>filePath = ''/var/lib/kubelet/cloudprovider.conf'',
       filePermissions = Some 420,
       fileContent = \<lparr>contentSecretRef = None,
                      contentInline = Some \<lparr>inlineEncoding = ''b64'', inlineData = ''CONFIG''\<rparr>\<rparr>\<rparr>,
      \<lparr>filePath = ''/var/lib/kubelet/cloudprovider.conf'',
       filePermissions = Some 384,
       fileContent = \<lparr>contentSecretRef = None,
                      contentInline = Some \<lparr>inlineEncoding = ''b64'', inlineData = ''STALE-2''\<rparr>\<rparr>\<rparr>]"
proof -
  let ?r = "mutateOperatingSystemConfig exampleConstants exampleMutator exampleConfig"
  let ?osc' = "fst (snd ?r)"
  let ?r2 = "mutateOperatingSystemConfig exampleConstants exampleMutator ?osc'"
  let ?d = "mutateOperatingSystemConfig exampleConstants exampleMutator duplicateConfig"
  have e: "fst ?r = None" by (simp add: mutator_defs)
  then have 1: "?r = (None, ?osc', snd (snd ?r))" by (metis prod.collapse)
  have 2: "ShouldProvisionKubeletCloudProviderConfig (ensurer exampleMutator)"
    by (simp add: exampleMutator_def)
  have 3: "EnsureKubeletCloudProviderConfig (ensurer exampleMutator) [] (oscNamespace exampleConfig) = (None, ''CONFIG'')"
    by (simp add: exampleMutator_def)
  have 4: "fciEncode (fciCodec exampleMutator) ''CONFIG'' (B64FileCodecID exampleConstants) =
             Inr \<lparr>inlineEncoding = ''b64'', inlineData = ''CONFIG''\<rparr>"
    by (simp add: exampleMutator_def exampleConstants_def)
  have 5: "length (filter (\<lambda>f. filePath f = cloudProviderConfigPath) (oscFiles exampleConfig)) \<le> 1"
    by (simp add: exampleConfig_def cloudProviderConfigPath_def)
  have e2: "fst ?r2 = None" by (simp add: mutator_defs)
  then have 6: "?r2 = (None, fst (snd ?r2), snd (snd ?r2))" by (metis prod.collapse)
  note t = cloud_provider_config_is_upserted[OF 1 2 3 4]
  from t[THEN conjunct2, THEN conjunct2, THEN conjunct1, THEN mp, OF 5]
  have f: "filter (\<lambda>f. filePath f = cloudProviderConfigPath) (oscFiles ?osc') =
     [\<lparr>filePath = ''/var/lib/kubelet/cloudprovider.conf'',
       filePermissions = Some 420,
       fileContent = \<lparr>contentSecretRef = None,
                      contentInline = Some \<lparr>inlineEncoding = ''b64'', inlineData = ''CONFIG''\<rparr>\<rparr>\<rparr>]" .
  from t[THEN conjunct2, THEN conjunct1]
  have l: "length (oscFiles ?osc') = 2"
    by (simp add: exampleConfig_def cloudProviderConfigPath_def)
  from t[THEN conjunct2, THEN conjunct2, THEN conjunct2, THEN spec, THEN spec, THEN mp, OF 6] l
  have l2: "length (oscFiles (fst (snd ?r2))) = 2" by simp
  have ed: "fst ?d = None" by (simp add: mutator_defs duplicateConfig_def)
  then have 7: "?d = (None, fst (snd ?d), snd (snd ?d))" by (metis prod.collapse)
  have 8: "EnsureKubeletCloudProviderConfig (ensurer exampleMutator) [] (oscNamespace duplicateConfig) = (None, ''CONFIG'')"
    by (simp add: exampleMutator_def)
  from cloud_provider_config_is_upserted[OF 7 2 8 4, THEN conjunct1]
  have d: "filter (\<lambda>f. filePath f = cloudProviderConfigPath) (oscFiles (fst (snd ?d))) =
     [\<lparr>filePath = ''/var/lib/kubelet/cloudprovider.conf'',
       filePermissions = Some 420,
       fileContent = \<lparr>contentSecretRef = None,
                      contentInline = Some \<lparr>inlineEncoding = ''b64'', inlineData = ''CONFIG''\<rparr>\<rparr>\<rparr>,
      \<lparr>filePath = ''/var/lib/kubelet/cloudprovider.conf'',
       filePermissions = Some 384,
       fileContent = \<lparr>contentSecretRef = None,
                      contentInline = Some \<lparr>inlineEncoding = ''b64'', inlineData = ''STALE-2''\<rparr>\<rparr>\<rparr>]"
    by (simp add: duplicateConfig_def cloudProviderConfigPath_def)
  from e f l l2 d show ?thesis by simp
qed

text \<open>
  C8. For the kubelet configuration and for the sysctl configuration: the step leaves
  the inline content as it is when it returns an error; otherwise the new content is
  what the codec encodes, under the encoding declared by the original payload, from the
  value the hook returns. So with a codec that keeps the encoding the tag is unchanged,
  and with a codec that round-trips a payload whose decoded value the hook does not
  change is reproduced as it was.
\<close>

theorem reencoding_keeps_the_encoding_and_round_trips:
  assumes "ensureKubeletConfigFileContent m kubeletFile = (errK, kubeletFile', callsK)"
    and "ensureKubernetesGeneralConfiguration m sysctlFile = (errG, sysctlFile', callsG)"
  shows "(errK \<noteq> None \<longrightarrow> kubeletFile' = kubeletFile) \<and>
         (errK = None \<longrightarrow>
            (\<exists>v v'. kubeletDecode (kubeletConfigCodec m) kubeletFile = Inr v \<and>
                    EnsureKubeletConfiguration (ensurer m) v = (None, v') \<and>
                    kubeletEncode (kubeletConfigCodec m) v' (inlineEncoding kubeletFile) = Inr kubeletFile')) \<and>
         (kubeletCodecKeepsEncoding (kubeletConfigCodec m) \<longrightarrow>
            inlineEncoding kubeletFile' = inlineEncoding kubeletFile) \<and>
         (kubeletCodecRoundTrips (kubeletConfigCodec m) \<and>
          (\<forall>v. kubeletDecode (kubeletConfigCodec m) kubeletFile = Inr v \<longrightarrow>
                 EnsureKubeletConfiguration (ensurer m) v = (None, v)) \<longrightarrow>
            kubeletFile' = kubeletFile) \<and>
         (errG \<noteq> None \<longrightarrow> sysctlFile' = sysctlFile) \<and>
         (errG = None \<longrightarrow>
            (\<exists>v v'. fciDecode (fciCodec m) sysctlFile = Inr v \<and>
                    EnsureKubernetesGeneralConfiguration (ensurer m) v = (None, v') \<and>
                    fciEncode (fciCodec m) v' (inlineEncoding sysctlFile) = Inr sysctlFile')) \<and>
         (fciCodecKeepsEncoding (fciCodec m) \<longrightarrow>
            inlineEncoding sysctlFile' = inlineEncoding sysctlFile) \<and>
         (fciCodecRoundTrips (fciCodec m) \<and>
          (\<forall>v. fciDecode (fciCodec m) sysctlFile = Inr v \<longrightarrow>
                 EnsureKubernetesGeneralConfiguration (ensurer m) v = (None, v)) \<longrightarrow>
            sysctlFile' = sysctlFile)"
proof -
  have k: "(errK \<noteq> None \<longrightarrow> kubeletFile' = kubeletFile) \<and>
         (errK = None \<longrightarrow>
            (\<exists>v v'. kubeletDecode (kubeletConfigCodec m) kubeletFile = Inr v \<and>
                    EnsureKubeletConfiguration (ensurer m) v = (None, v') \<and>
                    kubeletEncode (kubeletConfigCodec m) v' (inlineEncoding kubeletFile) = Inr kubeletFile'))"
    using assms(1)
    by (auto simp: ensureKubeletConfigFileContent_def split: sum.splits option.splits prod.splits)
  have g: "(errG \<noteq> None \<longrightarrow> sysctlFile' = sysctlFile) \<and>
         (errG = None \<longrightarrow>
            (\<exists>v v'. fciDecode (fciCodec m) sysctlFile = Inr v \<and>
                    EnsureKubernetesGeneralConfiguration (ensurer m) v = (None, v') \<and>
                    fciEncode (fciCodec m) v' (inlineEncoding sysctlFile) = Inr sysctlFile'))"
    using assms(2)
    by (auto simp: ensureKubernetesGeneralConfiguration_def split: sum.splits option.splits prod.splits)
  have k1: "inlineEncoding kubeletFile' = inlineEncoding kubeletFile"
    if "kubeletCodecKeepsEncoding (kubeletConfigCodec m)"
    using k that unfolding kubeletCodecKeepsEncoding_def by (cases errK) auto
  have k2: "kubeletFile' = kubeletFile"
    if "kubeletCodecRoundTrips (kubeletConfigCodec m)"
      and "\<forall>v. kubeletDecode (kubeletConfigCodec m) kubeletFile = Inr v \<longrightarrow>
                 EnsureKubeletConfiguration (ensurer m) v = (None, v)"
    using k that unfolding kubeletCodecRoundTrips_def by (cases errK) auto
  have g1: "inlineEncoding sysctlFile' = inlineEncoding sysctlFile"
    if "fciCodecKeepsEncoding (fciCodec m)"
    using g that unfolding fciCodecKeepsEncoding_def by (cases errG) auto
  have g2: "sysctlFile' = sysctlFile"
    if "fciCodecRoundTrips (fciCodec m)"
      and "\<forall>v. fciDecode (fciCodec m) sysctlFile = Inr v \<longrightarrow>
                 EnsureKubernetesGeneralConfiguration (ensurer m) v = (None, v)"
    using g that unfolding fciCodecRoundTrips_def by (cases errG) auto
  from k g k1 k2 g1 g2 show ?thesis by blast
qed

theorem reencoding_keeps_the_encoding_and_round_trips_witness:
  "kubeletCodecKeepsEncoding (kubeletConfigCodec exampleMutator) \<and>
   kubeletCodecRoundTrips (kubeletConfigCodec exampleMutator) \<and>
   fciCodecKeepsEncoding (fciCodec exampleMutator) \<and>
   fciCodecRoundTrips (fciCodec exampleMutator) \<and>
   ensureKubeletConfigFileContent exampleMutator exampleInline =
     (None, exampleInline, [CallEnsureKubeletConfiguration]) \<and>
   ensureKubernetesGeneralConfiguration exampleMutator exampleInline =
     (None, exampleInline, [CallEnsureKubernetesGeneralConfiguration])"
proof -
  have 1: "kubeletCodecKeepsEncoding (kubeletConfigCodec exampleMutator)"
    by (simp add: kubeletCodecKeepsEncoding_def exampleMutator_def)
  have 2: "kubeletCodecRoundTrips (kubeletConfigCodec exampleMutator)"
    by (simp add: kubeletCodecRoundTrips_def exampleMutator_def)
  have 3: "fciCodecKeepsEncoding (fciCodec exampleMutator)"
    by (simp add: fciCodecKeepsEncoding_def exampleMutator_def)
  have 4: "fciCodecRoundTrips (fciCodec exampleMutator)"
    by (simp add: fciCodecRoundTrips_def exampleMutator_def)
  have 5: "\<forall>v. kubeletDecode (kubeletConfigCodec exampleMutator) exampleInline = Inr v \<longrightarrow>
                 EnsureKubeletConfiguration (ensurer exampleMutator) v = (None, v)"
    by (simp add: exampleMutator_def)
  have 6: "\<forall>v. fciDecode (fciCodec exampleMutator) exampleInline = Inr v \<longrightarrow>
                 EnsureKubernetesGeneralConfiguration (ensurer exampleMutator) v = (None, v)"
    by (simp add: exampleMutator_def)
  obtain errK fK callsK where k: "ensureKubeletConfigFileContent exampleMutator exampleInline = (errK, fK, callsK)"
    by (cases "ensureKubeletConfigFileContent exampleMutator exampleInline")
  obtain errG fG callsG where g: "ensureKubernetesGeneralConfiguration exampleMutator exampleInline = (errG, fG, callsG)"
    by (cases "ensureKubernetesGeneralConfiguration exampleMutator exampleInline")
  from reencoding_keeps_the_encoding_and_round_trips[OF k g] 1 2 3 4 5 6
  have "fK = exampleInline" "fG = exampleInline" by blast+
  moreover have "errK = None" "callsK = [CallEnsureKubeletConfiguration]"
    using k by (simp_all add: ensureKubeletConfigFileContent_def exampleMutator_def)
  moreover have "errG = None" "callsG = [CallEnsureKubernetesGeneralConfiguration]"
    using g by (simp_all add: ensureKubernetesGeneralConfiguration_def exampleMutator_def)
  ultimately show ?thesis using k g 1 2 3 4 by simp
qed

text \<open>
  C9, as the claim states it: a resource type whose count is observed to be zero on a
  tick does not appear in the summary of that tick. It fails on the first tick of a wait
  that finds no machines and one machine set: the tick does not converge, the count of
  the machines is zero, and the summary it logs starts with \<^verbatim>\<open>0 machines\<close>.
\<close>

theorem summary_names_a_zero_count_counterexample:
  "fst (condition tickSetsLeft initialWaitState) = (False, None) \<and>
   countOf Machines (snd (condition tickSetsLeft initialWaitState)) = 0 \<and>
   logged (snd (condition tickSetsLeft initialWaitState)) =
     Some ''Waiting until the following machine resources have been processed: 0 machines, 1 machine sets, 0 machine deployments, 0 machine classes, 0 machine class secrets'' \<and>
   sublist ''0 machines'' (the (logged (snd (condition tickSetsLeft initialWaitState))))"
proof -
  have l: "logged (snd (condition tickSetsLeft initialWaitState)) =
     Some (''Waiting until the following machine resources have been processed: '' @ ''0 machines'' @
           '', 1 machine sets, 0 machine deployments, 0 machine classes, 0 machine class secrets'')"
    by (simp add: tick_defs example_defs)
  have "sublist ''0 machines'' (the (logged (snd (condition tickSetsLeft initialWaitState))))"
    unfolding l option.sel by (rule sublist_appendI)
  moreover have "fst (condition tickSetsLeft initialWaitState) = (False, None) \<and>
   countOf Machines (snd (condition tickSetsLeft initialWaitState)) = 0"
    by (simp add: tick_defs example_defs)
  ultimately show ?thesis using l by simp
qed

text \<open>
  C9, amended. On a tick that does not converge the summary lists, in the order of the
  source, exactly the resource types the tick has queried, which are those whose counter
  was not zero before the tick, each with the number of objects that the snapshot of this
  tick holds (zero included), which is also the value of its counter after the tick; the
  types whose counter was zero before the tick are left out.
\<close>

theorem progress_summary_lists_the_queried_types:
  assumes "condition env s = ((False, None), s')"
  shows "logged s' =
           Some (''Waiting until the following machine resources have been processed: '' @
                 TrimSuffix (concat (map (\<lambda>r. observedFragment r s env)
                   [Machines, MachineSets, MachineDeployments, MachineClasses, MachineClassSecrets])) '', '') \<and>
         queried s' = filter (\<lambda>r. countOf r s \<noteq> 0)
           [Machines, MachineSets, MachineDeployments, MachineClasses, MachineClassSecrets] \<and>
         (\<forall>r. countOf r s \<noteq> 0 \<longrightarrow> (\<exists>n. storeCount r env = Some n \<and> countOf r s' = int n))"
proof -
  from assms have n: "snd (fst (condition env s)) = None" and s': "s' = snd (condition env s)"
    by simp_all
  have obs: "\<exists>n. storeCount r env = Some n \<and> countOf r s' = int n" if "countOf r s \<noteq> 0" for r
    using condition_observes[OF n, of r] that by (auto simp: observes_def s')
  have "fragment r s s' = observedFragment r s env" for r
  proof (cases "countOf r s = 0")
    case True
    then show ?thesis by (simp add: fragment_def observedFragment_def del: countOf.simps)
  next
    case False
    from obs[OF this] obtain n where "storeCount r env = Some n" "countOf r s' = int n" by blast
    then show ?thesis using False by (simp add: fragment_def observedFragment_def del: countOf.simps)
  qed
  then have "(\<lambda>r. fragment r s s') = (\<lambda>r. observedFragment r s env)" by (rule ext)
  with condition_summary[OF assms] obs show ?thesis by (simp del: countOf.simps)
qed

theorem progress_summary_lists_the_queried_types_witness:
  "fst (condition tickSetsLeft (snd (condition tickDeploymentLeft initialWaitState))) = (False, None) \<and>
   logged (snd (condition tickSetsLeft (snd (condition tickDeploymentLeft initialWaitState)))) =
     Some ''Waiting until the following machine resources have been processed: 0 machines, 1 machine sets, 0 machine deployments'' \<and>
   queried (snd (condition tickSetsLeft (snd (condition tickDeploymentLeft initialWaitState)))) =
     [Machines, MachineSets, MachineDeployments] \<and>
   countOf Machines (snd (condition tickDeploymentLeft initialWaitState)) = 1 \<and>
   storeCount Machines tickSetsLeft = Some 0 \<and>
   countOf Machines (snd (condition tickSetsLeft (snd (condition tickDeploymentLeft initialWaitState)))) = 0 \<and>
   storeCount MachineClasses tickSetsLeft = Some 0 \<and>
   countOf MachineClasses (snd (condition tickDeploymentLeft initialWaitState)) = 0"
proof -
  let ?s = "snd (condition tickDeploymentLeft initialWaitState)"
  let ?s' = "snd (condition tickSetsLeft ?s)"
  have 1: "fst (condition tickSetsLeft ?s) = (False, None)"
    by (simp add: tick_defs example_defs)
  then have 2: "condition tickSetsLeft ?s = ((False, None), ?s')"
    by (metis prod.collapse)
  have 3: "countOf Machines ?s = 1" "countOf MachineSets ?s = 1" "countOf MachineDeployments ?s = 1"
    "countOf MachineClasses ?s = 0" "countOf MachineClassSecrets ?s = 0"
    by (simp_all add: tick_defs example_defs)
  have 4: "storeCount Machines tickSetsLeft = Some 0"
    "storeCount MachineSets tickSetsLeft = Some 1"
    "storeCount MachineDeployments tickSetsLeft = Some 0"
    "storeCount MachineClasses tickSetsLeft = Some 0"
    by (simp_all add: tickSetsLeft_def)
  note t = progress_summary_lists_the_queried_types[OF 2]
  from t[THEN conjunct1] have l: "logged ?s' =
     Some ''Waiting until the following machine resources have been processed: 0 machines, 1 machine sets, 0 machine deployments''"
    by (simp add: observedFragment_def 3 4 Sprintf_d_def decimal.simps TrimSuffix_def
        del: countOf.simps storeCount.simps)
  from t[THEN conjunct2, THEN conjunct1]
  have q: "queried ?s' = [Machines, MachineSets, MachineDeployments]"
    by (simp add: 3 del: countOf.simps)
  from t[THEN conjunct2, THEN conjunct2, THEN spec, of Machines] 3 4
  have c: "countOf Machines ?s' = 0" by (simp del: countOf.simps storeCount.simps)
  from 1 l q 3 4 c show ?thesis by (simp del: countOf.simps storeCount.simps)
qed

text \<open>
  C10. A tick performs the list call of a resource type when no earlier tick has listed
  the type empty and every list call that the tick makes before it, in the order of the
  source, passes; the types a tick records as queried are exactly these. Every tick
  whose predecessors all continue is run. When a list call that a tick performs returns
  an error, the tick returns that error, the wait returns it, and this tick is the last
  one.
\<close>

theorem list_error_ends_wait:
  assumes "waitUntilMachineResourcesDeleted ticks = (res, tr)"
  shows "(\<forall>k<length ticks. (\<forall>j<k. tickContinues ticks j) \<longrightarrow> k < length tr) \<and>
         (\<forall>k<length tr. \<forall>r. r \<in> set (queried (snd (tr ! k))) \<longleftrightarrow> performed r ticks k) \<and>
         (\<forall>k<length tr. \<forall>r e.
            performed r ticks k \<and> listError r (ticks ! k) = Some e \<longrightarrow>
              fst (tr ! k) = (False, Some e) \<and> res = Some e \<and> length tr = Suc k)"
proof (intro conjI allI impI)
  fix k assume "k < length ticks" "\<forall>j<k. tickContinues ticks j"
  then show "k < length tr" by (rule wait_reaches[OF assms])
next
  fix k r assume "k < length tr"
  then show "r \<in> set (queried (snd (tr ! k))) \<longleftrightarrow> performed r ticks k"
    by (rule wait_queried_iff[OF assms])
next
  fix k r e assume k: "k < length tr"
    and p: "performed r ticks k \<and> listError r (ticks ! k) = Some e"
  note t = wait_tick[OF assms k]
  from p have o: "countOf r (preState tr k) \<noteq> 0"
    and pass: "\<forall>q\<in>set (earlier r). countOf q (preState tr k) \<noteq> 0 \<longrightarrow> listingPasses q (ticks ! k)"
    by (simp_all add: performed_def wait_counters[OF assms k])
  from condition_list_error_store(1)[OF o _ pass, of e] p
  have out: "fst (tr ! k) = (False, Some e)" by (simp add: t(1))
  then have "fst (tr ! k) \<noteq> (False, None)" by simp
  from PollUntil_stops[OF assms[unfolded waitUntilMachineResourcesDeleted_def] k this] out
  show "fst (tr ! k) = (False, Some e)" "res = Some e" "length tr = Suc k" by simp_all
qed

theorem list_error_ends_wait_witness:
  "(\<forall>r. performed r [failAt r] 0 \<and>
        listError r (failAt r) = Some (listFailure r) \<and>
        fst (waitUntilMachineResourcesDeleted [failAt r]) = Some (listFailure r) \<and>
        length (snd (waitUntilMachineResourcesDeleted [failAt r])) = 1) \<and>
   tickContinues [tickSetsLeft, tickListFails, tickAllGone] 0 \<and>
   performed MachineSets [tickSetsLeft, tickListFails, tickAllGone] 1 \<and>
   MachineSets \<in> set (queried (snd (snd (waitUntilMachineResourcesDeleted
      [tickSetsLeft, tickListFails, tickAllGone]) ! 1))) \<and>
   Machines \<notin> set (queried (snd (snd (waitUntilMachineResourcesDeleted
      [tickSetsLeft, tickListFails, tickAllGone]) ! 1))) \<and>
   MachineDeployments \<notin> set (queried (snd (snd (waitUntilMachineResourcesDeleted
      [tickSetsLeft, tickListFails, tickAllGone]) ! 1))) \<and>
   fst (waitUntilMachineResourcesDeleted [tickSetsLeft, tickListFails, tickAllGone]) =
     Some (ClientError ''connection refused'') \<and>
   length (snd (waitUntilMachineResourcesDeleted [tickSetsLeft, tickListFails, tickAllGone])) = 2"
proof -
  let ?ticks = "[tickSetsLeft, tickListFails, tickAllGone]"
  let ?run = "waitUntilMachineResourcesDeleted ?ticks"
  have each: "performed r [failAt r] 0 \<and>
        listError r (failAt r) = Some (listFailure r) \<and>
        fst (waitUntilMachineResourcesDeleted [failAt r]) = Some (listFailure r) \<and>
        length (snd (waitUntilMachineResourcesDeleted [failAt r])) = 1" for r
  proof -
    let ?w = "waitUntilMachineResourcesDeleted [failAt r]"
    note t = list_error_ends_wait[OF surjective_pairing, of "[failAt r]"]
    have p: "performed r [failAt r] 0"
      by (cases r) (simp_all add: performed_def listingPasses_def failedMachinesListed_def failAt_def)
    have l: "listError r (failAt r) = Some (listFailure r)"
      by (cases r) (simp_all add: failAt_def)
    from t[THEN conjunct1, THEN spec, of 0] have k: "0 < length (snd ?w)" by simp
    from t[THEN conjunct2, THEN conjunct2, THEN spec, of 0, THEN mp, OF k, THEN spec, of r,
        THEN spec, of "listFailure r", THEN mp] p l
    have "fst ?w = Some (listFailure r)" "length (snd ?w) = 1" by simp_all
    with p l show ?thesis by blast
  qed
  note t = list_error_ends_wait[OF surjective_pairing, of ?ticks]
  have sets: "storeCount MachineSets tickSetsLeft \<noteq> Some 0"
    by (simp add: tickSetsLeft_def)
  have machines: "storeCount Machines tickSetsLeft = Some 0"
    by (simp add: tickSetsLeft_def)
  have pass: "listingPasses r tickSetsLeft" for r
    by (cases r; simp add: listingPasses_def failedMachinesListed_def tickSetsLeft_def)
  have still: "\<not> listedEmptyBefore MachineSets ?ticks 1"
    using sets by (simp add: listedEmptyBefore_def)
  have c0: "tickContinues ?ticks 0"
    unfolding tickContinues_def using pass still by auto
  from t[THEN conjunct1, THEN spec, of 1] c0 have 1: "1 < length (snd ?run)" by simp
  have p: "performed MachineSets ?ticks 1"
    using sets machines by (simp add: performed_def listedEmptyBefore_def)
  have np: "\<not> performed Machines ?ticks 1"
    using machines by (simp add: performed_def listedEmptyBefore_def)
  have nd: "\<not> performed MachineDeployments ?ticks 1"
    using sets by (simp add: performed_def listedEmptyBefore_def listingPasses_def tickListFails_def)
  note q = t[THEN conjunct2, THEN conjunct1, THEN spec, of 1, THEN mp, OF 1]
  from q[THEN spec, of MachineSets] p
  have q1: "MachineSets \<in> set (queried (snd (snd ?run ! 1)))" by simp
  from q[THEN spec, of Machines] np
  have q2: "Machines \<notin> set (queried (snd (snd ?run ! 1)))" by simp
  from q[THEN spec, of MachineDeployments] nd
  have q3: "MachineDeployments \<notin> set (queried (snd (snd ?run ! 1)))" by simp
  have 3: "listError MachineSets (?ticks ! 1) = Some (ClientError ''connection refused'')"
    by (simp add: tickListFails_def)
  from t[THEN conjunct2, THEN conjunct2, THEN spec, of 1, THEN mp, OF 1, THEN spec, of MachineSets,
      THEN spec, of "ClientError ''connection refused''", THEN mp] p 3
  have r: "fst ?run = Some (ClientError ''connection refused'')" "length (snd ?run) = 2"
    by simp_all
  show ?thesis
    apply (intro conjI allI)
    using each c0 p q1 q2 q3 r by blast+
qed

end
